theory Spec2Isabelle
  imports Complex_Main
begin

section \<open>Error taxonomy (errors/index.js)\<close>

text \<open>
  The classes of the error module as one tagged union. Each constructor carries the
  arguments of the JavaScript constructor; the fields that the base class derives from them
  (\<open>name\<close>, \<open>code\<close>, \<open>statusCode\<close>, \<open>message\<close>) are functions of the value.
  \<open>BaseError\<close> stands for the base class and for the subclasses that only fix its
  arguments; \<open>PlainError\<close> is an error that is not a \<open>BaseError\<close> (a network error
  with a \<open>code\<close> property, a \<open>SyntaxError\<close>, ...).
\<close>

datatype error =
    BaseError string int string
  | ValidationError string
  | NotFoundError string string
  | RateLimitError int
  | ExternalServiceError string string
  | GhostAPIError string string "int option"
  | PlainError string string "string option"

fun error_name :: "error \<Rightarrow> string" where
  "error_name (BaseError m s c) = ''BaseError''"
| "error_name (ValidationError m) = ''ValidationError''"
| "error_name (NotFoundError r i) = ''NotFoundError''"
| "error_name (RateLimitError n) = ''RateLimitError''"
| "error_name (ExternalServiceError s e) = ''ExternalServiceError''"
| "error_name (GhostAPIError op e sc) = ''GhostAPIError''"
| "error_name (PlainError n m c) = n"

fun error_message :: "error \<Rightarrow> string" where
  "error_message (BaseError m s c) = m"
| "error_message (ValidationError m) = m"
| "error_message (NotFoundError r i) = r @ '' not found: '' @ i"
| "error_message (RateLimitError n) = ''Rate limit exceeded''"
| "error_message (ExternalServiceError s e) = ''External service error: '' @ s"
| "error_message (GhostAPIError op e sc) = ''External service error: Ghost API''"
| "error_message (PlainError n m c) = m"

fun error_code :: "error \<Rightarrow> string option" where
  "error_code (BaseError m s c) = Some c"
| "error_code (ValidationError m) = Some ''VALIDATION_ERROR''"
| "error_code (NotFoundError r i) = Some ''NOT_FOUND''"
| "error_code (RateLimitError n) = Some ''RATE_LIMIT_EXCEEDED''"
| "error_code (ExternalServiceError s e) = Some ''EXTERNAL_SERVICE_ERROR''"
| "error_code (GhostAPIError op e sc) =
     (if sc = Some 401 then Some ''GHOST_AUTH_ERROR''
      else if sc = Some 404 then Some ''GHOST_NOT_FOUND''
      else if sc = Some 422 then Some ''GHOST_VALIDATION_ERROR''
      else if sc = Some 429 then Some ''GHOST_RATE_LIMIT''
      else Some ''EXTERNAL_SERVICE_ERROR'')"
| "error_code (PlainError n m c) = c"

fun statusCode :: "error \<Rightarrow> int option" where
  "statusCode (BaseError m s c) = Some s"
| "statusCode (ValidationError m) = Some 400"
| "statusCode (NotFoundError r i) = Some 404"
| "statusCode (RateLimitError n) = Some 429"
| "statusCode (ExternalServiceError s e) = Some 502"
| "statusCode (GhostAPIError op e sc) =
     (if sc = Some 401 then Some 401
      else if sc = Some 404 then Some 404
      else if sc = Some 422 then Some 400
      else if sc = Some 429 then Some 429
      else Some 502)"
| "statusCode (PlainError n m c) = None"

text \<open>\<open>instanceof\<close>: \<open>GhostAPIError extends ExternalServiceError\<close>.\<close>

fun instanceof_RateLimitError :: "error \<Rightarrow> bool" where
  "instanceof_RateLimitError (RateLimitError n) = True"
| "instanceof_RateLimitError e = False"

fun instanceof_ExternalServiceError :: "error \<Rightarrow> bool" where
  "instanceof_ExternalServiceError (ExternalServiceError s e) = True"
| "instanceof_ExternalServiceError (GhostAPIError op e sc) = True"
| "instanceof_ExternalServiceError e = False"

fun instanceof_GhostAPIError :: "error \<Rightarrow> bool" where
  "instanceof_GhostAPIError (GhostAPIError op e sc) = True"
| "instanceof_GhostAPIError e = False"

fun ghostStatusCode :: "error \<Rightarrow> int option" where
  "ghostStatusCode (GhostAPIError op e sc) = sc"
| "ghostStatusCode e = None"

text \<open>
  \<open>ErrorHandler.fromGhostError\<close> turns a failure of the upstream client into the
  taxonomy; it is the only place where an upstream failure is built. Of the error it is
  given it reads \<open>error.response?.status || error.statusCode\<close> and
  \<open>error.response?.data?.errors?.[0]?.message || error.message\<close>; \<open>None\<close> is
  \<open>undefined\<close>, and \<open>||\<close> passes over 0 and the empty string.
\<close>

record upstream_error =
  response_status :: "int option"
  response_message :: "string option"
  own_statusCode :: "int option"
  own_message :: string

definition fromGhostError :: "upstream_error \<Rightarrow> string \<Rightarrow> error" where
  "fromGhostError err operation =
     (let statusCode' = (case response_status err of
                           None \<Rightarrow> own_statusCode err
                         | Some s \<Rightarrow> if s = 0 then own_statusCode err else Some s);
          message = (case response_message err of
                       None \<Rightarrow> own_message err
                     | Some t \<Rightarrow> if t = [] then own_message err else t)
      in GhostAPIError operation message statusCode')"

definition isRetryable :: "error \<Rightarrow> bool" where
  "isRetryable e =
     (if instanceof_RateLimitError e then True
      else if instanceof_ExternalServiceError e then True
      else if instanceof_GhostAPIError e
        then ghostStatusCode e \<in> {Some 429, Some 502, Some 503, Some 504}
      else if error_code e = Some ''ECONNREFUSED'' \<or> error_code e = Some ''ETIMEDOUT''
              \<or> error_code e = Some ''ECONNRESET'' then True
      else False)"


section \<open>The environment of an asynchronous call\<close>

text \<open>
  The code reads the clock (\<open>Date.now()\<close>) and the random generator (\<open>Math.random()\<close>)
  and awaits operations supplied by its callers. The environment is a record passed
  through every call: \<open>now\<close> is the clock in milliseconds, \<open>random\<close> the sequence of
  values \<open>Math.random()\<close> will return and \<open>drawn\<close> how many of them were taken. The
  record is extensible, so an awaited operation may keep state of its own in the extension.
  An awaited operation takes the environment and returns either the error it rejects with
  (\<open>Inl\<close>) or its result (\<open>Inr\<close>), and the environment when it settles: the clock may have
  moved during the wait. Synchronous code runs at one clock reading. JavaScript numbers
  are taken as exact integers and reals. Output on the console is not modelled.
\<close>

record world =
  now :: int
  random :: "nat \<Rightarrow> real"
  drawn :: nat

type_synonym ('a, 'z) async = "'z world_scheme \<Rightarrow> (error + 'a) \<times> 'z world_scheme"

definition Math_random :: "'z world_scheme \<Rightarrow> real \<times> 'z world_scheme" where
  "Math_random w = (random w (drawn w), w\<lparr>drawn := Suc (drawn w)\<rparr>)"


section \<open>Circuit breaker (class CircuitBreaker)\<close>

datatype breaker_state = CLOSED | OPEN | HALF_OPEN

record breaker_options =
  opt_failureThreshold :: "int option"
  opt_resetTimeout :: "int option"
  opt_monitoringPeriod :: "int option"

record breaker =
  failureThreshold :: int
  resetTimeout :: int
  monitoringPeriod :: int
  state :: breaker_state
  failureCount :: int
  lastFailureTime :: "int option"
  nextAttempt :: "int option"

text \<open>\<open>x || d\<close> on an optional number: \<open>undefined\<close> and \<open>0\<close> give the default.\<close>

definition or_default :: "int option \<Rightarrow> int \<Rightarrow> int" where
  "or_default x d = (case x of None \<Rightarrow> d | Some n \<Rightarrow> if n = 0 then d else n)"

definition CircuitBreaker :: "breaker_options \<Rightarrow> breaker" where
  "CircuitBreaker options =
     \<lparr>failureThreshold = or_default (opt_failureThreshold options) 5,
      resetTimeout = or_default (opt_resetTimeout options) 60000,
      monitoringPeriod = or_default (opt_monitoringPeriod options) 10000,
      state = CLOSED, failureCount = 0, lastFailureTime = None, nextAttempt = None\<rparr>"

definition onSuccess :: "breaker \<Rightarrow> breaker" where
  "onSuccess b =
     (if state b = HALF_OPEN then b\<lparr>state := CLOSED\<rparr> else b)
       \<lparr>failureCount := 0, lastFailureTime := None\<rparr>"

definition onFailure :: "int \<Rightarrow> breaker \<Rightarrow> breaker" where
  "onFailure t b =
     (let b1 = b\<lparr>failureCount := failureCount b + 1, lastFailureTime := Some t\<rparr>
      in if failureCount b1 \<ge> failureThreshold b1
         then b1\<lparr>state := OPEN, nextAttempt := Some (t + resetTimeout b1)\<rparr>
         else b1)"

text \<open>
  \<open>Date.now() < this.nextAttempt\<close>: a \<open>null\<close> on the right is the number 0.
\<close>

definition before_nextAttempt :: "int \<Rightarrow> int option \<Rightarrow> bool" where
  "before_nextAttempt t n = (case n of None \<Rightarrow> t < 0 | Some a \<Rightarrow> t < a)"

text \<open>
  The result of \<open>execute\<close>: what the returned promise settles with, the breaker and the
  environment afterwards, and \<open>invoked\<close>, which records whether \<open>fn\<close> was called.
\<close>

record ('a, 'z) executed =
  outcome :: "error + 'a"
  breaker_after :: breaker
  world_after :: "'z world_scheme"
  invoked :: bool

definition circuit_open_error :: error where
  "circuit_open_error =
     ExternalServiceError ''Circuit breaker is OPEN'' ''Service temporarily unavailable''"

definition run_guarded :: "breaker \<Rightarrow> ('a, 'z) async \<Rightarrow> 'z world_scheme \<Rightarrow> ('a, 'z) executed" where
  "run_guarded b fn w =
     (case fn w of
        (Inr result, w') \<Rightarrow>
          \<lparr>outcome = Inr result, breaker_after = onSuccess b, world_after = w', invoked = True\<rparr>
      | (Inl err, w') \<Rightarrow>
          \<lparr>outcome = Inl err, breaker_after = onFailure (now w') b, world_after = w',
           invoked = True\<rparr>)"

definition execute :: "breaker \<Rightarrow> ('a, 'z) async \<Rightarrow> 'z world_scheme \<Rightarrow> ('a, 'z) executed" where
  "execute b fn w =
     (if state b = OPEN then
        (if before_nextAttempt (now w) (nextAttempt b)
         then \<lparr>outcome = Inl circuit_open_error, breaker_after = b, world_after = w,
               invoked = False\<rparr>
         else run_guarded (b\<lparr>state := HALF_OPEN\<rparr>) fn w)
      else run_guarded b fn w)"

text \<open>Calls made one after the other on the same breaker, each awaited before the next.\<close>

fun execute_each ::
  "breaker \<Rightarrow> ('a, 'z) async list \<Rightarrow> 'z world_scheme
    \<Rightarrow> (error + 'a) list \<times> breaker \<times> 'z world_scheme" where
  "execute_each b [] w = ([], b, w)"
| "execute_each b (fn # fns) w =
     (let r = execute b fn w;
          (rs, b', w') = execute_each (breaker_after r) fns (world_after r)
      in (outcome r # rs, b', w'))"


section \<open>Backoff policy and retry loop (ErrorHandler.getRetryDelay, retryWithBackoff)\<close>

fun retryAfter :: "error \<Rightarrow> int" where
  "retryAfter (RateLimitError n) = n"
| "retryAfter e = 0"

text \<open>
  The local \<open>delay\<close> of \<open>getRetryDelay\<close>, before jitter:
  \<open>Math.min(baseDelay * Math.pow(2, attempt - 1), maxDelay)\<close>.
\<close>

definition baseDelay :: real where
  "baseDelay = 1000"

definition maxDelay :: real where
  "maxDelay = 30000"

definition backoff_delay :: "int \<Rightarrow> real" where
  "backoff_delay attempt = min (baseDelay * power_int 2 (attempt - 1)) maxDelay"

text \<open>
  \<open>jitter r delay\<close> is \<open>Math.random() * 0.3 * delay\<close> for the random draw \<open>r\<close>;
  \<open>Math.round\<close> rounds halves up, as \<^const>\<open>round\<close> does.
\<close>

definition jitter :: "real \<Rightarrow> real \<Rightarrow> real" where
  "jitter r delay = r * 0.3 * delay"

definition getRetryDelay :: "int \<Rightarrow> error \<Rightarrow> 'z world_scheme \<Rightarrow> int \<times> 'z world_scheme" where
  "getRetryDelay attempt e w =
     (if instanceof_RateLimitError e then (retryAfter e * 1000, w)
      else
        (let delay = backoff_delay attempt;
             (r, w') = Math_random w
         in (round (delay + jitter r delay), w')))"










section \<open>LRU cache (class LRUCache)\<close>

text \<open>
  A JavaScript \<open>Map\<close> keeps its entries in insertion order and holds a key once: it is
  an association list on which \<open>set\<close> overwrites in place or appends, and \<open>delete\<close>
  removes the key.
\<close>

type_synonym ('k, 'v) jsmap = "('k \<times> 'v) list"

fun map_get :: "('k, 'v) jsmap \<Rightarrow> 'k \<Rightarrow> 'v option" where
  "map_get [] k = None"
| "map_get ((k', v) # m) k = (if k' = k then Some v else map_get m k)"

fun map_set :: "('k, 'v) jsmap \<Rightarrow> 'k \<Rightarrow> 'v \<Rightarrow> ('k, 'v) jsmap" where
  "map_set [] k v = [(k, v)]"
| "map_set ((k', v') # m) k v = (if k' = k then (k, v) # m else (k', v') # map_set m k v)"

definition map_delete :: "('k, 'v) jsmap \<Rightarrow> 'k \<Rightarrow> ('k, 'v) jsmap" where
  "map_delete m k = filter (\<lambda>(k', v). k' \<noteq> k) m"

definition map_keys :: "('k, 'v) jsmap \<Rightarrow> 'k list" where
  "map_keys m = map fst m"

definition map_size :: "('k, 'v) jsmap \<Rightarrow> int" where
  "map_size m = int (length m)"

record 'v cache_item =
  item_value :: 'v
  expiry :: int

record 'v lru_cache =
  maxSize :: int
  ttl :: int
  cache :: "(string, 'v cache_item) jsmap"
  accessOrder :: "string list"

definition LRUCache :: "int \<Rightarrow> int \<Rightarrow> 'v lru_cache" where
  "LRUCache maxSize' ttl' = \<lparr>maxSize = maxSize', ttl = ttl', cache = [], accessOrder = []\<rparr>"

text \<open>\<open>get(key)\<close> at clock reading \<open>t\<close>; \<open>None\<close> is the \<open>null\<close> returned.\<close>

definition lru_get :: "string \<Rightarrow> int \<Rightarrow> 'v lru_cache \<Rightarrow> 'v option \<times> 'v lru_cache" where
  "lru_get key t c =
     (case map_get (cache c) key of
        None \<Rightarrow> (None, c)
      | Some item \<Rightarrow>
          if t > expiry item
          then (None, c\<lparr>cache := map_delete (cache c) key,
                         accessOrder := filter (\<lambda>k. k \<noteq> key) (accessOrder c)\<rparr>)
          else (Some (item_value item),
                c\<lparr>accessOrder := filter (\<lambda>k. k \<noteq> key) (accessOrder c) @ [key]\<rparr>))"

text \<open>
  The eviction loop of \<open>set\<close>:
  \<open>while (this.cache.size >= this.maxSize && this.accessOrder.length > 0)\<close>
  shifts the first key off the access order and deletes it from the map.
\<close>

fun evict :: "int \<Rightarrow> (string, 'v) jsmap \<Rightarrow> string list \<Rightarrow> (string, 'v) jsmap \<times> string list" where
  "evict m c [] = (c, [])"
| "evict m c (oldestKey # order) =
     (if map_size c \<ge> m then evict m (map_delete c oldestKey) order
      else (c, oldestKey # order))"

definition lru_set :: "string \<Rightarrow> 'v \<Rightarrow> int option \<Rightarrow> int \<Rightarrow> 'v lru_cache \<Rightarrow> 'v lru_cache" where
  "lru_set key v customTTL t c =
     (let (c1, order1) = evict (maxSize c) (cache c) (accessOrder c);
          ttl1 = or_default customTTL (ttl c)
      in c\<lparr>cache := map_set c1 key \<lparr>item_value = v, expiry = t + ttl1\<rparr>,
            accessOrder := order1 @ [key]\<rparr>)"

text \<open>
  \<open>invalidate(pattern)\<close>. \<open>new RegExp(pattern)\<close> is a parameter: \<open>regexp p\<close> is
  \<open>None\<close> when the constructor throws a \<open>SyntaxError\<close>, else the \<open>test\<close> function of
  the expression. A \<open>null\<close> or empty pattern clears the cache. The loop visits the keys
  of the map in order, deleting the matching ones as it goes.
\<close>

definition invalidate_key :: "(string \<Rightarrow> bool) \<Rightarrow> 'v lru_cache \<Rightarrow> string \<Rightarrow> 'v lru_cache" where
  "invalidate_key test c key =
     (if test key
      then c\<lparr>cache := map_delete (cache c) key,
             accessOrder := filter (\<lambda>k. k \<noteq> key) (accessOrder c)\<rparr>
      else c)"

definition lru_invalidate ::
  "(string \<Rightarrow> (string \<Rightarrow> bool) option) \<Rightarrow> string option \<Rightarrow> 'v lru_cache \<Rightarrow> error + 'v lru_cache" where
  "lru_invalidate regexp pattern c =
     (if pattern = None \<or> pattern = Some []
      then Inr (c\<lparr>cache := [], accessOrder := []\<rparr>)
      else
        (case regexp (the pattern) of
           None \<Rightarrow> Inl (PlainError ''SyntaxError'' ''Invalid regular expression'' None)
         | Some test \<Rightarrow> Inr (foldl (invalidate_key test) c (map_keys (cache c)))))"

text \<open>A cache operation, with the clock reading at which it runs.\<close>

datatype 'v cache_op =
    Get string int
  | Set string 'v "int option" int
  | Invalidate "string option"

fun cache_step ::
  "(string \<Rightarrow> (string \<Rightarrow> bool) option) \<Rightarrow> 'v lru_cache \<Rightarrow> 'v cache_op \<Rightarrow> 'v lru_cache" where
  "cache_step regexp c (Get key t) = snd (lru_get key t c)"
| "cache_step regexp c (Set key v customTTL t) = lru_set key v customTTL t c"
| "cache_step regexp c (Invalidate pattern) =
     (case lru_invalidate regexp pattern c of Inl err \<Rightarrow> c | Inr c' \<Rightarrow> c')"

definition cache_run ::
  "(string \<Rightarrow> (string \<Rightarrow> bool) option) \<Rightarrow> 'v lru_cache \<Rightarrow> 'v cache_op list \<Rightarrow> 'v lru_cache" where
  "cache_run regexp c ops = foldl (cache_step regexp) c ops"


definition order_inv :: "'v lru_cache \<Rightarrow> bool" where
  "order_inv c = (distinct (accessOrder c) \<and> set (accessOrder c) = set (map_keys (cache c)))"


section \<open>Query translation of a collection fetch (ResourceFetcher.fetchPosts)\<close>

text \<open>
  \<open>parseInt(string)\<close> without a radix: leading white space is skipped, a sign is read,
  a \<open>0x\<close> or \<open>0X\<close> prefix selects base 16, and the longest prefix of digits is the
  value; \<open>None\<close> is \<open>NaN\<close> (no digit at all).
\<close>

definition is_white_space :: "char \<Rightarrow> bool" where
  "is_white_space c = (of_char c \<in> {9, 10, 11, 12, 13, 32, 160 :: nat})"

definition digit_value :: "char \<Rightarrow> nat option" where
  "digit_value c =
     (let n = (of_char c :: nat)
      in if 48 \<le> n \<and> n \<le> 57 then Some (n - 48)
         else if 97 \<le> n \<and> n \<le> 122 then Some (n - 87)
         else if 65 \<le> n \<and> n \<le> 90 then Some (n - 55)
         else None)"

definition is_digit :: "nat \<Rightarrow> char \<Rightarrow> bool" where
  "is_digit radix c = (case digit_value c of None \<Rightarrow> False | Some d \<Rightarrow> d < radix)"

definition digits_value :: "nat \<Rightarrow> string \<Rightarrow> int" where
  "digits_value radix ds = foldl (\<lambda>acc c. acc * int radix + int (the (digit_value c))) 0 ds"

definition parseInt :: "string \<Rightarrow> int option" where
  "parseInt s =
     (let s1 = dropWhile is_white_space s;
          (sign, s2) = (case s1 of
                          c # r \<Rightarrow> if c = CHR ''-'' then (- 1, r)
                                   else if c = CHR ''+'' then (1, r) else (1 :: int, s1)
                        | [] \<Rightarrow> (1, s1));
          (radix, s3) = (case s2 of
                           c # x # r \<Rightarrow> if c = CHR ''0'' \<and> (x = CHR ''x'' \<or> x = CHR ''X'')
                                       then (16, r) else (10 :: nat, s2)
                         | _ \<Rightarrow> (10, s2));
          ds = takeWhile (is_digit radix) s3
      in if ds = [] then None else Some (sign * digits_value radix ds))"

text \<open>
  A query object maps parameter names to strings; \<open>None\<close> is \<open>undefined\<close>.
  \<open>parseInt(undefined)\<close> is \<open>NaN\<close>; \<open>s || d\<close> on a string takes the default for
  \<open>undefined\<close> and for the empty string.
\<close>

type_synonym query = "string \<Rightarrow> string option"

definition parseInt_param :: "string option \<Rightarrow> int option" where
  "parseInt_param p = (case p of None \<Rightarrow> None | Some s \<Rightarrow> parseInt s)"

definition truthy :: "string option \<Rightarrow> bool" where
  "truthy p = (p \<noteq> None \<and> p \<noteq> Some [])"

definition string_or :: "string option \<Rightarrow> string \<Rightarrow> string" where
  "string_or p d = (if truthy p then the p else d)"

record post_options =
  opt_limit :: int
  opt_page :: int
  opt_include :: string
  opt_filter :: "string option"
  opt_order :: string

definition fetchPosts_options :: "query \<Rightarrow> post_options" where
  "fetchPosts_options query =
     (let options =
            \<lparr>opt_limit = or_default (parseInt_param (query ''limit'')) 15,
             opt_page = or_default (parseInt_param (query ''page'')) 1,
             opt_include = string_or (query ''include'') ''tags,authors'',
             opt_filter = query ''filter'',
             opt_order = string_or (query ''order'') ''published_at desc''\<rparr>
      in if truthy (query ''status'')
         then options\<lparr>opt_filter :=
                Some (if truthy (opt_filter options)
                      then the (opt_filter options) @ ''+status:'' @ the (query ''status'')
                      else ''status:'' @ the (query ''status''))\<rparr>
         else options)"


section \<open>Subscriptions (class ResourceSubscriptionManager)\<close>

text \<open>
  The event object handed to a callback. A callback is the caller's function. The manager
  only calls it; what the function does when it is called is the caller's code: it may
  call \<open>subscribe\<close> and \<open>unsubscribe\<close> on the manager, and it returns or throws. The
  model holds the identity of the function and records every call of it; what the function
  does appears as happenings of its own (see \<open>happening\<close> below).
\<close>

record 'v event =
  ev_type :: string
  ev_uri :: string
  ev_data :: "'v option"
  ev_error :: "string option"
  ev_timestamp :: int

type_synonym callback = nat

record subscribe_options =
  pollingInterval :: "int option"
  enablePolling :: bool

record 'v subscription =
  sub_id :: string
  sub_uri :: string
  callback :: callback
  lastValue :: "'v option"
  sub_options :: subscribe_options

text \<open>
  Subscription objects are shared between the \<open>subscriptions\<close> map and the closures
  \<open>pollFunc\<close> of the timers, which keep the object after the map has dropped it. The
  objects live in \<open>heap\<close>, addressed by position; the maps and the closures hold addresses.
  \<open>timers\<close> is the table of live intervals of the runtime (\<open>setInterval\<close> adds,
  \<open>clearInterval\<close> removes): handle, captured subscription and interval. A call of
  \<open>pollFunc\<close> is a poll cycle. \<open>inflight\<close> lists the cycles that await
  \<open>fetchResource\<close>, and \<open>trying\<close> the cycles that are inside the callback called with
  an update event in the \<open>try\<close> block, each by the subscription it captured.
  \<open>delivered\<close> lists the callback invocations made so far: the subscription object
  whose callback was called, and the event passed.
\<close>

record 'v manager =
  heap :: "'v subscription list"
  subscriptions :: "(string, nat) jsmap"
  pollingIntervals :: "(string, nat) jsmap"
  timers :: "(nat \<times> nat \<times> int) list"
  next_timer :: nat
  inflight :: "nat list"
  trying :: "nat list"
  delivered :: "(nat \<times> 'v event) list"

definition ResourceSubscriptionManager :: "'v manager" where
  "ResourceSubscriptionManager =
     \<lparr>heap = [], subscriptions = [], pollingIntervals = [], timers = [], next_timer = 0,
      inflight = [], trying = [], delivered = []\<rparr>"

text \<open>
  Calling \<open>pollFunc\<close> runs it up to \<open>await this.fetchResource(...)\<close>: the fetch is in
  flight and the rest of the body runs when it settles.
\<close>

definition pollFunc :: "nat \<Rightarrow> 'v manager \<Rightarrow> 'v manager" where
  "pollFunc a m = m\<lparr>inflight := inflight m @ [a]\<rparr>"

definition startPolling :: "string \<Rightarrow> int \<Rightarrow> 'v manager \<Rightarrow> 'v manager" where
  "startPolling subscriptionId interval m =
     (case map_get (subscriptions m) subscriptionId of
        None \<Rightarrow> m
      | Some a \<Rightarrow>
          (let m1 = pollFunc a m;
               intervalId = next_timer m1
           in m1\<lparr>timers := timers m1 @ [(intervalId, a, interval)],
                 next_timer := Suc intervalId,
                 pollingIntervals := map_set (pollingIntervals m1) subscriptionId intervalId\<rparr>))"

text \<open>
  \<open>stopPolling\<close> tests \<open>if (intervalId)\<close>: the handle returned by \<open>setInterval\<close>
  is a timer object, so the test fails only when the map has no handle for the identifier.
\<close>

definition stopPolling :: "string \<Rightarrow> 'v manager \<Rightarrow> 'v manager" where
  "stopPolling subscriptionId m =
     (case map_get (pollingIntervals m) subscriptionId of
        None \<Rightarrow> m
      | Some intervalId \<Rightarrow>
          m\<lparr>timers := filter (\<lambda>(h, a, i). h \<noteq> intervalId) (timers m),
            pollingIntervals := map_delete (pollingIntervals m) subscriptionId\<rparr>)"

text \<open>
  \<open>subscribe\<close>; the identifier built from \<open>Date.now()\<close> and \<open>Math.random()\<close> is the
  argument \<open>subscriptionId\<close>.
\<close>

definition subscribe ::
  "string \<Rightarrow> callback \<Rightarrow> subscribe_options \<Rightarrow> string \<Rightarrow> 'v manager \<Rightarrow> string \<times> 'v manager" where
  "subscribe uri cb options subscriptionId m =
     (let pollingInterval' = or_default (pollingInterval options) 30000;
          subscription = \<lparr>sub_id = subscriptionId, sub_uri = uri, callback = cb,
                          lastValue = None, sub_options = options\<rparr>;
          m1 = m\<lparr>heap := heap m @ [subscription],
                 subscriptions := map_set (subscriptions m) subscriptionId (length (heap m))\<rparr>;
          m2 = (if enablePolling options then startPolling subscriptionId pollingInterval' m1
                else m1)
      in (subscriptionId, m2))"

text \<open>\<open>unsubscribe\<close>: the error thrown, if any, and the manager afterwards.\<close>

definition unsubscribe :: "string \<Rightarrow> 'v manager \<Rightarrow> error option \<times> 'v manager" where
  "unsubscribe subscriptionId m =
     (case map_get (subscriptions m) subscriptionId of
        None \<Rightarrow> (Some (NotFoundError ''Subscription'' subscriptionId), m)
      | Some a \<Rightarrow>
          (let m1 = stopPolling subscriptionId m
           in (None, m1\<lparr>subscriptions := map_delete (subscriptions m1) subscriptionId\<rparr>)))"

text \<open>
  \<open>subscription.callback(ev)\<close> on the subscription object at \<open>a\<close>: the call is made.
\<close>

definition deliver :: "nat \<Rightarrow> 'v event \<Rightarrow> 'v manager \<Rightarrow> 'v manager" where
  "deliver a ev m = m\<lparr>delivered := delivered m @ [(a, ev)]\<rparr>"

definition update_event :: "string \<Rightarrow> 'v \<Rightarrow> int \<Rightarrow> 'v event" where
  "update_event uri v t =
     \<lparr>ev_type = ''update'', ev_uri = uri, ev_data = Some v, ev_error = None, ev_timestamp = t\<rparr>"

definition error_event :: "string \<Rightarrow> error \<Rightarrow> int \<Rightarrow> 'v event" where
  "error_event uri err t =
     \<lparr>ev_type = ''error'', ev_uri = uri, ev_data = None, ev_error = Some (error_message err),
      ev_timestamp = t\<rparr>"

text \<open>
  \<open>JSON.stringify(currentValue) !== JSON.stringify(subscription.lastValue)\<close>, for the
  serialisation \<open>stringify\<close> of values; \<open>lastValue\<close> starts as \<open>null\<close>.
\<close>

definition changed :: "('v \<Rightarrow> string) \<Rightarrow> 'v \<Rightarrow> 'v option \<Rightarrow> bool" where
  "changed stringify v previous =
     (stringify v \<noteq> (case previous of None \<Rightarrow> ''null'' | Some l \<Rightarrow> stringify l))"

text \<open>
  The body of \<open>pollFunc\<close> after the \<open>await\<close>, run at time \<open>t\<close> when the fetch of the
  cycle on subscription \<open>a\<close> settles with \<open>result\<close>, up to its first call of the
  callback. A failed fetch goes to the \<open>catch\<close> block, which calls the callback with an
  error event. A value that differs from \<open>lastValue\<close> is stored and the callback is called
  with an update event; the cycle is then inside that callback.
\<close>

definition poll_resumes ::
  "('v \<Rightarrow> string) \<Rightarrow> nat \<Rightarrow> error + 'v \<Rightarrow> int \<Rightarrow> 'v manager \<Rightarrow> 'v manager" where
  "poll_resumes stringify a result t m =
     (case result of
        Inl err \<Rightarrow> deliver a (error_event (sub_uri (heap m ! a)) err t) m
      | Inr currentValue \<Rightarrow>
          if changed stringify currentValue (lastValue (heap m ! a))
          then
            (let m1 = m\<lparr>heap := (heap m)[a := (heap m ! a)\<lparr>lastValue := Some currentValue\<rparr>]\<rparr>;
                 m2 = deliver a (update_event (sub_uri (heap m1 ! a)) currentValue t) m1
             in m2\<lparr>trying := trying m2 @ [a]\<rparr>)
          else m)"

definition fetch_settles ::
  "('v \<Rightarrow> string) \<Rightarrow> nat \<Rightarrow> error + 'v \<Rightarrow> int \<Rightarrow> 'v manager \<Rightarrow> 'v manager" where
  "fetch_settles stringify k result t m =
     (if k < length (inflight m)
      then poll_resumes stringify (inflight m ! k) result t
             (m\<lparr>inflight := take k (inflight m) @ drop (Suc k) (inflight m)\<rparr>)
      else m)"

text \<open>
  The callback called with the update event ends. When it returns, the cycle is over. When
  it throws, the \<open>catch\<close> block calls the callback again, with an error event carrying
  the message of what was thrown, at time \<open>t\<close>. (What the callback called from the
  \<open>catch\<close> block does at its end changes nothing in the manager.)
\<close>

definition callback_returns :: "nat \<Rightarrow> 'v manager \<Rightarrow> 'v manager" where
  "callback_returns a m = m\<lparr>trying := remove1 a (trying m)\<rparr>"

definition callback_throws :: "nat \<Rightarrow> error \<Rightarrow> int \<Rightarrow> 'v manager \<Rightarrow> 'v manager" where
  "callback_throws a err t m =
     (if a \<in> set (trying m)
      then deliver a (error_event (sub_uri (heap m ! a)) err t)
             (m\<lparr>trying := remove1 a (trying m)\<rparr>)
      else m)"

definition startsWith :: "string \<Rightarrow> string \<Rightarrow> bool" where
  "startsWith s p = (take (length p) s = p)"

definition matchesSubscription :: "string \<Rightarrow> string \<Rightarrow> bool" where
  "matchesSubscription subscriptionURI eventURI =
     (subscriptionURI = eventURI \<or> startsWith subscriptionURI eventURI
      \<or> startsWith eventURI subscriptionURI)"

text \<open>
  \<open>notifySubscribers\<close> walks the \<open>subscriptions\<close> map and calls the callback of each
  subscription whose URI matches. The iterator of a \<open>Map\<close> yields the entries that are
  in the map when it reaches them, so every step of the loop visits a subscription that is
  registered at that moment. \<open>notify_visit\<close> is one step of the loop, on the entry of
  \<open>subscriptionId\<close>; the steps of one call, and what the callbacks do between them, are
  happenings of their own.
\<close>

definition notify_visit ::
  "string \<Rightarrow> string \<Rightarrow> 'v \<Rightarrow> string \<Rightarrow> int \<Rightarrow> 'v manager \<Rightarrow> 'v manager" where
  "notify_visit subscriptionId uri d eventType t m =
     (case map_get (subscriptions m) subscriptionId of
        None \<Rightarrow> m
      | Some a \<Rightarrow>
          if matchesSubscription (sub_uri (heap m ! a)) uri
          then deliver a \<lparr>ev_type = eventType, ev_uri = uri, ev_data = Some d, ev_error = None,
                          ev_timestamp = t\<rparr> m
          else m)"

text \<open>
  What can happen to a manager: a call of \<open>subscribe\<close> or \<open>unsubscribe\<close> (from outside
  or from a callback that is executing), a live timer firing, a fetch in flight settling
  (the one at position \<open>k\<close> of \<open>inflight\<close>, with a result), the callback called with an
  update event returning or throwing, and a step of the loop of \<open>notifySubscribers\<close>.
  A run is any sequence of happenings: the sequences the runtime allows, with callbacks
  that call back into the manager, are among them.
\<close>

datatype 'v happening =
    Subscribe string callback subscribe_options string
  | Unsubscribe string
  | Tick nat
  | Settle nat "error + 'v" int
  | CallbackReturns nat
  | CallbackThrows nat error int
  | NotifyVisit string string 'v string int

definition timer_fires :: "nat \<Rightarrow> 'v manager \<Rightarrow> 'v manager" where
  "timer_fires h m =
     (case filter (\<lambda>(h', a, i). h' = h) (timers m) of
        [] \<Rightarrow> m
      | (h', a, i) # rest \<Rightarrow> pollFunc a m)"

fun manager_step :: "('v \<Rightarrow> string) \<Rightarrow> 'v manager \<Rightarrow> 'v happening \<Rightarrow> 'v manager" where
  "manager_step stringify m (Subscribe uri cb options subscriptionId) =
     snd (subscribe uri cb options subscriptionId m)"
| "manager_step stringify m (Unsubscribe subscriptionId) = snd (unsubscribe subscriptionId m)"
| "manager_step stringify m (Tick h) = timer_fires h m"
| "manager_step stringify m (Settle k result t) = fetch_settles stringify k result t m"
| "manager_step stringify m (CallbackReturns a) = callback_returns a m"
| "manager_step stringify m (CallbackThrows a err t) = callback_throws a err t m"
| "manager_step stringify m (NotifyVisit subscriptionId uri d eventType t) =
     notify_visit subscriptionId uri d eventType t m"

definition manager_run :: "('v \<Rightarrow> string) \<Rightarrow> 'v manager \<Rightarrow> 'v happening list \<Rightarrow> 'v manager" where
  "manager_run stringify m hs = foldl (manager_step stringify) m hs"

text \<open>
  Callback invocations made on subscription \<open>a\<close>, its cycles awaiting the fetch, and its
  cycles inside the update callback.
\<close>

definition invocations_of :: "nat \<Rightarrow> 'v manager \<Rightarrow> nat" where
  "invocations_of a m = length (filter (\<lambda>(a', ev). a' = a) (delivered m))"

definition inflight_of :: "nat \<Rightarrow> 'v manager \<Rightarrow> nat" where
  "inflight_of a m = length (filter (\<lambda>a'. a' = a) (inflight m))"

definition trying_of :: "nat \<Rightarrow> 'v manager \<Rightarrow> nat" where
  "trying_of a m = length (filter (\<lambda>a'. a' = a) (trying m))"

text \<open>
  The invariant of the manager: an identifier is registered once; registered addresses are
  allocated, and no address is registered under two identifiers; the subscription captured
  by a live timer is allocated, and if it is registered under an identifier then
  \<open>pollingIntervals\<close> holds that timer's handle for the identifier.
\<close>

definition manager_inv :: "'v manager \<Rightarrow> bool" where
  "manager_inv m =
     (distinct (map fst (subscriptions m))
      \<and> (\<forall>(sid, a) \<in> set (subscriptions m). a < length (heap m))
      \<and> (\<forall>(s1, a1) \<in> set (subscriptions m). \<forall>(s2, a2) \<in> set (subscriptions m).
            a1 = a2 \<longrightarrow> s1 = s2)
      \<and> (\<forall>(h, a, i) \<in> set (timers m). a < length (heap m)
            \<and> (\<forall>sid. (sid, a) \<in> set (subscriptions m)
                  \<longrightarrow> map_get (pollingIntervals m) sid = Some h)))"

text \<open>
  A subscription object is retired when it is allocated but neither registered nor
  captured by a live timer. \<open>pending_work\<close> bounds the callback invocations it can still
  get: those made, two for each of its cycles awaiting the fetch and one for each of its
  cycles inside the update callback. \<open>step_ok\<close> relates the managers before and after
  a step for a retired object.
\<close>

definition retired :: "nat \<Rightarrow> 'v manager \<Rightarrow> bool" where
  "retired a m =
     (a < length (heap m) \<and> a \<notin> snd ` set (subscriptions m)
      \<and> (\<forall>(h, a', i) \<in> set (timers m). a' \<noteq> a))"

definition pending_work :: "nat \<Rightarrow> 'v manager \<Rightarrow> nat" where
  "pending_work a m = invocations_of a m + 2 * inflight_of a m + trying_of a m"

definition step_ok :: "nat \<Rightarrow> 'v manager \<Rightarrow> 'v manager \<Rightarrow> bool" where
  "step_ok a m m' =
     (retired a m' \<and> pending_work a m' \<le> pending_work a m
      \<and> invocations_of a m \<le> invocations_of a m')"


section \<open>Properties of the circuit breaker\<close>

lemma execute_open_rejects:
  "state b = OPEN \<Longrightarrow> before_nextAttempt (now w) (nextAttempt b) \<Longrightarrow>
   execute b fn w =
     \<lparr>outcome = Inl circuit_open_error, breaker_after = b, world_after = w, invoked = False\<rparr>"
  by (simp add: execute_def)

lemma run_guarded_failed:
  "isl (outcome (run_guarded b fn w)) \<Longrightarrow>
   breaker_after (run_guarded b fn w) = onFailure (now (world_after (run_guarded b fn w))) b
   \<and> invoked (run_guarded b fn w)"
  by (auto simp: run_guarded_def split: prod.splits sum.splits)

lemma execute_not_open:
  "state b \<noteq> OPEN \<Longrightarrow> execute b fn w = run_guarded b fn w"
  by (simp add: execute_def)

lemma onFailure_below:
  "failureCount b + 1 < failureThreshold b \<Longrightarrow>
   onFailure t b = b\<lparr>failureCount := failureCount b + 1, lastFailureTime := Some t\<rparr>"
  by (simp add: onFailure_def Let_def)

lemma onFailure_reaches:
  "failureThreshold b \<le> failureCount b + 1 \<Longrightarrow>
   onFailure t b = b\<lparr>failureCount := failureCount b + 1, lastFailureTime := Some t,
                     state := OPEN, nextAttempt := Some (t + resetTimeout b)\<rparr>"
  by (simp add: onFailure_def Let_def)

text \<open>
  C1, as the claim states it, fails: the error thrown by an open breaker has the code
  \<open>EXTERNAL_SERVICE_ERROR\<close> and the status 502, which are also the code and status of
  the error \<open>fromGhostError\<close> builds from an upstream 503 and from a refused connection.
\<close>

theorem circuit_open_kind_counterexample:
  "outcome (execute
      \<lparr>failureThreshold = 5, resetTimeout = 60000, monitoringPeriod = 10000, state = OPEN,
       failureCount = 5, lastFailureTime = Some 1000, nextAttempt = Some 61000\<rparr>
      (\<lambda>w. (Inr (), w)) \<lparr>now = 2000, random = (\<lambda>i. 0), drawn = 0\<rparr>)
     = Inl (ExternalServiceError ''Circuit breaker is OPEN'' ''Service temporarily unavailable'')
   \<and> error_code (ExternalServiceError ''Circuit breaker is OPEN''
        ''Service temporarily unavailable'')
     = error_code (GhostAPIError ''posts.browse'' ''Service Unavailable'' (Some 503))
   \<and> error_code (ExternalServiceError ''Circuit breaker is OPEN''
        ''Service temporarily unavailable'')
     = error_code (fromGhostError
         \<lparr>response_status = Some 503, response_message = Some ''Service Unavailable'',
          own_statusCode = None, own_message = ''Request failed''\<rparr> ''posts.browse'')
   \<and> error_code (ExternalServiceError ''Circuit breaker is OPEN''
        ''Service temporarily unavailable'')
     = error_code (fromGhostError
         \<lparr>response_status = None, response_message = None,
          own_statusCode = None, own_message = ''connect ECONNREFUSED''\<rparr> ''posts.browse'')
   \<and> statusCode (ExternalServiceError ''Circuit breaker is OPEN''
        ''Service temporarily unavailable'')
     = statusCode (fromGhostError
         \<lparr>response_status = Some 503, response_message = Some ''Service Unavailable'',
          own_statusCode = None, own_message = ''Request failed''\<rparr> ''posts.browse'')"
  by (simp add: execute_def before_nextAttempt_def circuit_open_error_def fromGhostError_def)

text \<open>
  C1, amended: a call rejected by an open breaker (state \<open>OPEN\<close>, clock before
  \<open>nextAttempt\<close>) throws a newly built \<open>ExternalServiceError\<close> with service
  \<open>Circuit breaker is OPEN\<close> and original error \<open>Service temporarily unavailable\<close>,
  whatever failures the breaker saw before. The code has no kind of its own for it: its
  code is \<open>EXTERNAL_SERVICE_ERROR\<close> and its status 502, as for every
  \<open>ExternalServiceError\<close> and for every upstream failure (built by \<open>fromGhostError\<close>)
  whose status is not 401, 404, 422 or 429; like every upstream failure it is an instance of
  \<open>ExternalServiceError\<close> and counts as retryable. It differs from an upstream failure
  in its class name (\<open>ExternalServiceError\<close>, not \<open>GhostAPIError\<close>) and in its message.
\<close>

theorem circuit_open_is_external_service_error:
  fixes fn :: "('a, 'z) async"
  assumes "state b = OPEN" and "before_nextAttempt (now w) (nextAttempt b)"
  shows "outcome (execute b fn w)
           = Inl (ExternalServiceError ''Circuit breaker is OPEN''
                    ''Service temporarily unavailable'')
         \<and> error_name circuit_open_error = ''ExternalServiceError''
         \<and> error_code circuit_open_error = Some ''EXTERNAL_SERVICE_ERROR''
         \<and> statusCode circuit_open_error = Some 502
         \<and> error_message circuit_open_error
             = ''External service error: Circuit breaker is OPEN''
         \<and> instanceof_ExternalServiceError circuit_open_error
         \<and> isRetryable circuit_open_error
         \<and> (\<forall>service originalError.
               error_code (ExternalServiceError service originalError)
                 = error_code circuit_open_error
               \<and> statusCode (ExternalServiceError service originalError)
                 = statusCode circuit_open_error)
         \<and> (\<forall>u operation.
               ghostStatusCode (fromGhostError u operation)
                 \<notin> {Some 401, Some 404, Some 422, Some 429}
               \<longrightarrow> error_code (fromGhostError u operation) = error_code circuit_open_error
                 \<and> statusCode (fromGhostError u operation) = statusCode circuit_open_error)
         \<and> (\<forall>u operation.
               instanceof_ExternalServiceError (fromGhostError u operation)
               \<and> isRetryable (fromGhostError u operation)
               \<and> error_name (fromGhostError u operation) = ''GhostAPIError''
               \<and> error_name (fromGhostError u operation) \<noteq> error_name circuit_open_error
               \<and> error_message (fromGhostError u operation)
                   = ''External service error: Ghost API''
               \<and> error_message (fromGhostError u operation)
                   \<noteq> error_message circuit_open_error)"
proof -
  have 1: "outcome (execute b fn w)
           = Inl (ExternalServiceError ''Circuit breaker is OPEN''
                    ''Service temporarily unavailable'')"
    using execute_open_rejects[OF assms, of fn] by (simp add: circuit_open_error_def)
  have 2: "error_name circuit_open_error = ''ExternalServiceError''"
    and 3: "error_code circuit_open_error = Some ''EXTERNAL_SERVICE_ERROR''"
    and 4: "statusCode circuit_open_error = Some 502"
    and 5: "error_message circuit_open_error
             = ''External service error: Circuit breaker is OPEN''"
    and 6: "instanceof_ExternalServiceError circuit_open_error"
    and 7: "isRetryable circuit_open_error"
    by (simp_all add: circuit_open_error_def isRetryable_def)
  have 8: "\<forall>service originalError.
               error_code (ExternalServiceError service originalError)
                 = error_code circuit_open_error
               \<and> statusCode (ExternalServiceError service originalError)
                 = statusCode circuit_open_error"
    by (simp add: circuit_open_error_def)
  have 9: "\<forall>u operation.
               ghostStatusCode (fromGhostError u operation)
                 \<notin> {Some 401, Some 404, Some 422, Some 429}
               \<longrightarrow> error_code (fromGhostError u operation) = error_code circuit_open_error
                 \<and> statusCode (fromGhostError u operation) = statusCode circuit_open_error"
    by (simp add: fromGhostError_def Let_def circuit_open_error_def)
  have 10: "\<forall>u operation.
               instanceof_ExternalServiceError (fromGhostError u operation)
               \<and> isRetryable (fromGhostError u operation)
               \<and> error_name (fromGhostError u operation) = ''GhostAPIError''
               \<and> error_name (fromGhostError u operation) \<noteq> error_name circuit_open_error
               \<and> error_message (fromGhostError u operation)
                   = ''External service error: Ghost API''
               \<and> error_message (fromGhostError u operation)
                   \<noteq> error_message circuit_open_error"
    by (simp add: fromGhostError_def Let_def circuit_open_error_def isRetryable_def)
  show ?thesis
    by (intro conjI) fact+
qed

theorem circuit_open_is_external_service_error_witness:
  "state \<lparr>failureThreshold = 5, resetTimeout = 60000, monitoringPeriod = 10000, state = OPEN,
       failureCount = 5, lastFailureTime = Some 1000, nextAttempt = Some 61000\<rparr> = OPEN
   \<and> before_nextAttempt (now \<lparr>now = 2000, random = (\<lambda>i. 0), drawn = 0\<rparr>) (Some 61000)
   \<and> outcome (execute
      \<lparr>failureThreshold = 5, resetTimeout = 60000, monitoringPeriod = 10000, state = OPEN,
       failureCount = 5, lastFailureTime = Some 1000, nextAttempt = Some 61000\<rparr>
      (\<lambda>w. (Inr (7 :: int), w)) \<lparr>now = 2000, random = (\<lambda>i. 0), drawn = 0\<rparr>)
     = Inl (ExternalServiceError ''Circuit breaker is OPEN'' ''Service temporarily unavailable'')
   \<and> ghostStatusCode (fromGhostError
         \<lparr>response_status = Some 503, response_message = Some ''Service Unavailable'',
          own_statusCode = None, own_message = ''Request failed''\<rparr> ''posts.browse'') = Some 503
   \<and> error_code (fromGhostError
         \<lparr>response_status = Some 503, response_message = Some ''Service Unavailable'',
          own_statusCode = None, own_message = ''Request failed''\<rparr> ''posts.browse'')
       = Some ''EXTERNAL_SERVICE_ERROR''"
proof -
  let ?b = "\<lparr>failureThreshold = 5, resetTimeout = 60000, monitoringPeriod = 10000,
             state = OPEN, failureCount = 5, lastFailureTime = Some 1000,
             nextAttempt = Some 61000\<rparr>"
  let ?w = "\<lparr>now = 2000, random = (\<lambda>i. 0), drawn = 0\<rparr>"
  let ?u = "\<lparr>response_status = Some 503, response_message = Some ''Service Unavailable'',
             own_statusCode = None, own_message = ''Request failed''\<rparr>"
  have s: "state ?b = OPEN" by simp
  have n: "before_nextAttempt (now ?w) (nextAttempt ?b)"
    by (simp add: before_nextAttempt_def)
  note t = circuit_open_is_external_service_error[OF s n, of "\<lambda>w. (Inr (7 :: int), w)"]
  note t9 = t[THEN conjunct2, THEN conjunct2, THEN conjunct2, THEN conjunct2, THEN conjunct2,
              THEN conjunct2, THEN conjunct2, THEN conjunct2, THEN conjunct1, rule_format]
  have o: "outcome (execute ?b (\<lambda>w. (Inr (7 :: int), w)) ?w)
     = Inl (ExternalServiceError ''Circuit breaker is OPEN'' ''Service temporarily unavailable'')"
    using t by (rule conjunct1)
  have g: "ghostStatusCode (fromGhostError ?u ''posts.browse'') = Some 503"
    by (simp add: fromGhostError_def)
  have "error_code (fromGhostError ?u ''posts.browse'') = error_code circuit_open_error"
    using t9[of ?u "''posts.browse''"] g by simp
  then have e: "error_code (fromGhostError ?u ''posts.browse'') = Some ''EXTERNAL_SERVICE_ERROR''"
    by (simp add: circuit_open_error_def)
  have n': "before_nextAttempt (now ?w) (Some 61000)"
    by (simp add: before_nextAttempt_def)
  show ?thesis
    by (intro conjI) (fact s n' o g e)+
qed

text \<open>
  C2: a breaker built with \<open>failureThreshold = 3\<close> starts closed; when three calls made
  one after the other all fail, it is \<open>OPEN\<close> with \<open>failureCount = 3\<close> and
  \<open>nextAttempt\<close> set to the time of the third failure plus \<open>resetTimeout\<close>. Any call on
  a breaker that is \<open>OPEN\<close> with the clock before \<open>nextAttempt\<close> throws the breaker's
  error without calling the wrapped function, leaving breaker and environment as they were.
\<close>

theorem breaker_opens_at_threshold_3:
  "(\<forall>rt mp (f1 :: ('a, 'z) async) f2 f3 w rs b w'.
      execute_each (CircuitBreaker \<lparr>opt_failureThreshold = Some 3, opt_resetTimeout = rt,
                                    opt_monitoringPeriod = mp\<rparr>) [f1, f2, f3] w = (rs, b, w')
      \<and> (\<forall>r \<in> set rs. isl r)
      \<longrightarrow> state b = OPEN \<and> failureCount b = 3
          \<and> nextAttempt b = Some (now w' + resetTimeout b))
   \<and> (\<forall>b t (fn :: ('c, 'y) async) w. state b = OPEN \<and> nextAttempt b = Some t \<and> now w < t
      \<longrightarrow> outcome (execute b fn w) = Inl circuit_open_error \<and> \<not> invoked (execute b fn w)
          \<and> breaker_after (execute b fn w) = b \<and> world_after (execute b fn w) = w)"
proof (intro conjI allI impI)
  fix rt mp and f1 f2 f3 :: "('a, 'z) async" and w rs b w'
  assume a: "execute_each (CircuitBreaker \<lparr>opt_failureThreshold = Some 3, opt_resetTimeout = rt,
                                    opt_monitoringPeriod = mp\<rparr>) [f1, f2, f3] w = (rs, b, w')
      \<and> (\<forall>r \<in> set rs. isl r)"
  define b0 where "b0 = CircuitBreaker \<lparr>opt_failureThreshold = Some 3, opt_resetTimeout = rt,
                                    opt_monitoringPeriod = mp\<rparr>"
  define r1 where "r1 = run_guarded b0 f1 w"
  define b1 where "b1 = onFailure (now (world_after r1)) b0"
  define r2 where "r2 = run_guarded b1 f2 (world_after r1)"
  define b2 where "b2 = onFailure (now (world_after r2)) b1"
  define r3 where "r3 = run_guarded b2 f3 (world_after r2)"
  define b3 where "b3 = onFailure (now (world_after r3)) b2"
  have b0: "state b0 = CLOSED" "failureCount b0 = 0" "failureThreshold b0 = 3"
    by (simp_all add: b0_def CircuitBreaker_def or_default_def)
  have b1: "state b1 = CLOSED" "failureCount b1 = 1" "failureThreshold b1 = 3"
    "resetTimeout b1 = resetTimeout b0"
    using b0 by (simp_all add: b1_def onFailure_below)
  have b2: "state b2 = CLOSED" "failureCount b2 = 2" "failureThreshold b2 = 3"
    "resetTimeout b2 = resetTimeout b0"
    using b1 by (simp_all add: b2_def onFailure_below)
  have b3: "state b3 = OPEN" "failureCount b3 = 3"
    "nextAttempt b3 = Some (now (world_after r3) + resetTimeout b3)"
    using b2 by (simp_all add: b3_def onFailure_reaches)
  have e1: "execute b0 f1 w = r1" using b0 by (simp add: execute_not_open r1_def)
  from a have o1: "isl (outcome r1)"
    by (auto simp: b0_def[symmetric] e1 Let_def split: prod.splits)
  then have a1: "breaker_after r1 = b1"
    unfolding r1_def b1_def by (simp add: run_guarded_failed)
  have e2: "execute b1 f2 (world_after r1) = r2" using b1 by (simp add: execute_not_open r2_def)
  from a have o2: "isl (outcome r2)"
    by (auto simp: b0_def[symmetric] e1 a1 e2 Let_def split: prod.splits)
  then have a2: "breaker_after r2 = b2"
    unfolding r2_def b2_def by (simp add: run_guarded_failed)
  have e3: "execute b2 f3 (world_after r2) = r3" using b2 by (simp add: execute_not_open r3_def)
  from a have o3: "isl (outcome r3)"
    by (auto simp: b0_def[symmetric] e1 a1 e2 a2 e3 Let_def split: prod.splits)
  then have a3: "breaker_after r3 = b3"
    unfolding r3_def b3_def by (simp add: run_guarded_failed)
  from a have "b = b3" "w' = world_after r3"
    by (auto simp: b0_def[symmetric] e1 a1 e2 a2 e3 a3 Let_def split: prod.splits)
  with b3 show "state b = OPEN" "failureCount b = 3" "nextAttempt b = Some (now w' + resetTimeout b)"
    by simp_all
next
  fix b :: breaker and t and fn :: "('c, 'y) async" and w :: "'y world_scheme"
  assume "state b = OPEN \<and> nextAttempt b = Some t \<and> now w < t"
  then have "state b = OPEN" "before_nextAttempt (now w) (nextAttempt b)"
    by (simp_all add: before_nextAttempt_def)
  then have "execute b fn w =
     \<lparr>outcome = Inl circuit_open_error, breaker_after = b, world_after = w, invoked = False\<rparr>"
    by (rule execute_open_rejects)
  then show "outcome (execute b fn w) = Inl circuit_open_error" "\<not> invoked (execute b fn w)"
    "breaker_after (execute b fn w) = b" "world_after (execute b fn w) = w"
    by simp_all
qed

theorem breaker_opens_at_threshold_3_witness:
  "execute_each
     (CircuitBreaker \<lparr>opt_failureThreshold = Some 3, opt_resetTimeout = None,
                      opt_monitoringPeriod = None\<rparr>)
     [\<lambda>w. (Inl (GhostAPIError ''posts.browse'' ''Service Unavailable'' (Some 503)), w),
      \<lambda>w. (Inl (GhostAPIError ''posts.browse'' ''Service Unavailable'' (Some 503)), w),
      \<lambda>w. (Inl (GhostAPIError ''posts.browse'' ''Service Unavailable'' (Some 503)), w)]
     \<lparr>now = 1000, random = (\<lambda>i. 0), drawn = 0\<rparr>
   = ([Inl (GhostAPIError ''posts.browse'' ''Service Unavailable'' (Some 503)),
       Inl (GhostAPIError ''posts.browse'' ''Service Unavailable'' (Some 503)),
       Inl (GhostAPIError ''posts.browse'' ''Service Unavailable'' (Some 503)) :: error + int],
      \<lparr>failureThreshold = 3, resetTimeout = 60000, monitoringPeriod = 10000, state = OPEN,
       failureCount = 3, lastFailureTime = Some 1000, nextAttempt = Some 61000\<rparr>,
      \<lparr>now = 1000, random = (\<lambda>i. 0), drawn = 0\<rparr>)
   \<and> isl (Inl (GhostAPIError ''posts.browse'' ''Service Unavailable'' (Some 503))
          :: error + int)
   \<and> now \<lparr>now = 1001, random = (\<lambda>i. 0), drawn = 0\<rparr> < 61000
   \<and> \<not> invoked (execute
        \<lparr>failureThreshold = 3, resetTimeout = 60000, monitoringPeriod = 10000, state = OPEN,
         failureCount = 3, lastFailureTime = Some 1000, nextAttempt = Some 61000\<rparr>
        (\<lambda>w. (Inr (7 :: int), w)) \<lparr>now = 1001, random = (\<lambda>i. 0), drawn = 0\<rparr>)"
  using breaker_opens_at_threshold_3
  by (simp add: CircuitBreaker_def or_default_def execute_def run_guarded_def onFailure_def
        before_nextAttempt_def Let_def)


section \<open>Properties of the query translation\<close>

text \<open>
  C9: the code folds a status of \<open>all\<close> into the filter like any other non-empty status:
  the query \<open>status=all\<close> gives the upstream filter \<open>status:all\<close>, and with an existing
  filter \<open>tag:news\<close> it gives \<open>tag:news+status:all\<close>. The claim says \<open>all\<close> is not
  folded in.
\<close>

theorem fetchPosts_status_all_is_folded:
  "opt_filter (fetchPosts_options [''status'' \<mapsto> ''all'']) = Some ''status:all''
   \<and> opt_filter (fetchPosts_options [''filter'' \<mapsto> ''tag:news'', ''status'' \<mapsto> ''all''])
       = Some ''tag:news+status:all''"
  by (simp add: fetchPosts_options_def truthy_def Let_def)

text \<open>What the translation does besides: every non-empty status is conjoined, and the
  defaults of \<open>limit\<close> and \<open>page\<close> are 15 and 1.\<close>

lemma fetchPosts_status_folded:
  "truthy (query ''status'') \<Longrightarrow>
   opt_filter (fetchPosts_options query) =
     Some (if truthy (query ''filter'')
           then the (query ''filter'') @ ''+status:'' @ the (query ''status'')
           else ''status:'' @ the (query ''status''))"
  by (simp add: fetchPosts_options_def Let_def)

lemma fetchPosts_defaults:
  "query ''limit'' = None \<Longrightarrow> query ''page'' = None \<Longrightarrow>
   opt_limit (fetchPosts_options query) = 15 \<and> opt_page (fetchPosts_options query) = 1"
  by (simp add: fetchPosts_options_def Let_def parseInt_param_def or_default_def)


section \<open>Properties of the subscription manager\<close>

lemma map_get_map_set: "map_get (map_set m k v) k = Some v"
  by (induction m) auto

lemma map_get_map_set_other: "k' \<noteq> k \<Longrightarrow> map_get (map_set m k v) k' = map_get m k'"
  by (induction m) auto

lemma map_get_map_delete: "map_get (map_delete m k) k = None"
  by (induction m) (auto simp: map_delete_def)

lemma map_get_map_delete_other: "k' \<noteq> k \<Longrightarrow> map_get (map_delete m k) k' = map_get m k'"
  by (induction m) (auto simp: map_delete_def)

text \<open>
  C10: when the identifier is not registered, \<open>unsubscribe\<close> throws
  \<open>NotFoundError('Subscription', id)\<close>, whose code is \<open>NOT_FOUND\<close> and whose message
  names the identifier, and the manager (registry, timers and all) is unchanged. After an
  \<open>unsubscribe\<close> that succeeded, a second one for the same identifier throws that error.
\<close>

theorem unsubscribe_unregistered_throws:
  fixes m :: "'v manager"
  shows "(map_get (subscriptions m) sid = None \<longrightarrow>
            unsubscribe sid m = (Some (NotFoundError ''Subscription'' sid), m)
            \<and> error_code (NotFoundError ''Subscription'' sid) = Some ''NOT_FOUND''
            \<and> error_message (NotFoundError ''Subscription'' sid)
                = ''Subscription not found: '' @ sid)
         \<and> (fst (unsubscribe sid m) = None \<longrightarrow>
              unsubscribe sid (snd (unsubscribe sid m))
                = (Some (NotFoundError ''Subscription'' sid), snd (unsubscribe sid m)))"
proof (intro conjI impI)
  assume "map_get (subscriptions m) sid = None"
  then show "unsubscribe sid m = (Some (NotFoundError ''Subscription'' sid), m)"
    by (simp add: unsubscribe_def)
next
  assume ok: "fst (unsubscribe sid m) = None"
  then obtain a where a: "map_get (subscriptions m) sid = Some a"
    by (cases "map_get (subscriptions m) sid") (auto simp: unsubscribe_def)
  have "map_get (subscriptions (snd (unsubscribe sid m))) sid = None"
    using a by (simp add: unsubscribe_def Let_def map_get_map_delete)
  then show "unsubscribe sid (snd (unsubscribe sid m))
                = (Some (NotFoundError ''Subscription'' sid), snd (unsubscribe sid m))"
    by (simp add: unsubscribe_def)
qed simp_all

theorem unsubscribe_unregistered_throws_witness:
  "map_get (subscriptions (ResourceSubscriptionManager :: string manager)) ''sub_1'' = None
   \<and> unsubscribe ''sub_1'' (ResourceSubscriptionManager :: string manager)
       = (Some (NotFoundError ''Subscription'' ''sub_1''), ResourceSubscriptionManager)
   \<and> fst (unsubscribe ''sub_1''
        (snd (subscribe ''ghost/posts'' 7
               \<lparr>pollingInterval = None, enablePolling = True\<rparr> ''sub_1''
               (ResourceSubscriptionManager :: string manager)))) = None
   \<and> fst (unsubscribe ''sub_1'' (snd (unsubscribe ''sub_1''
        (snd (subscribe ''ghost/posts'' 7
               \<lparr>pollingInterval = None, enablePolling = True\<rparr> ''sub_1''
               (ResourceSubscriptionManager :: string manager))))))
       = Some (NotFoundError ''Subscription'' ''sub_1'')"
  using unsubscribe_unregistered_throws
          [of "ResourceSubscriptionManager :: string manager" "''sub_1''"]
        unsubscribe_unregistered_throws
          [of "snd (subscribe ''ghost/posts'' 7
               \<lparr>pollingInterval = None, enablePolling = True\<rparr> ''sub_1''
               (ResourceSubscriptionManager :: string manager))" "''sub_1''"]
  by (simp add: ResourceSubscriptionManager_def subscribe_def startPolling_def pollFunc_def
        unsubscribe_def stopPolling_def Let_def or_default_def map_delete_def)

text \<open>
  C8, as the claim states it, fails: a subscription with polling enabled and a requested
  interval of 1000 ms gets a timer of 1000 ms, not of 5000 ms.
\<close>

theorem polling_interval_floor_counterexample:
  "timers (snd (subscribe ''ghost/posts'' 7
             \<lparr>pollingInterval = Some 1000, enablePolling = True\<rparr> ''sub_1''
             (ResourceSubscriptionManager :: string manager)))
     = [(0, 0, 1000)]"
  by (simp add: ResourceSubscriptionManager_def subscribe_def startPolling_def pollFunc_def
        Let_def or_default_def)

text \<open>
  C8, amended: with \<open>enablePolling\<close> set, \<open>subscribe\<close> starts exactly one timer, for the
  new subscription, whose interval is \<open>options.pollingInterval\<close> when that is given and
  not zero, and 30000 ms otherwise. No lower bound is applied to it.
\<close>

theorem polling_interval_as_requested:
  fixes m :: "'v manager"
  assumes "enablePolling options"
  shows "timers (snd (subscribe uri cb options sid m))
           = timers m @ [(next_timer m, length (heap m),
                (case pollingInterval options of
                   None \<Rightarrow> 30000
                 | Some n \<Rightarrow> if n = 0 then 30000 else n))]"
  using assms
  by (simp add: subscribe_def startPolling_def pollFunc_def Let_def or_default_def
        map_get_map_set)

theorem polling_interval_as_requested_witness:
  "enablePolling \<lparr>pollingInterval = Some 1000, enablePolling = True\<rparr>
   \<and> timers (snd (subscribe ''ghost/posts'' 7
             \<lparr>pollingInterval = Some 1000, enablePolling = True\<rparr> ''sub_1''
             (ResourceSubscriptionManager :: string manager)))
       = [(0, 0, 1000)]
   \<and> timers (snd (subscribe ''ghost/posts'' 7
             \<lparr>pollingInterval = None, enablePolling = True\<rparr> ''sub_2''
             (ResourceSubscriptionManager :: string manager)))
       = [(0, 0, 30000)]"
  using polling_interval_as_requested
          [of "\<lparr>pollingInterval = Some 1000, enablePolling = True\<rparr>" "''ghost/posts''"
              7 "''sub_1''" "ResourceSubscriptionManager :: string manager"]
        polling_interval_as_requested
          [of "\<lparr>pollingInterval = None, enablePolling = True\<rparr>" "''ghost/posts''"
              7 "''sub_2''" "ResourceSubscriptionManager :: string manager"]
  by (simp add: ResourceSubscriptionManager_def)


section \<open>Properties of the backoff policy and the retry loop\<close>

lemma backoff_delay_eq:
  "1 \<le> a \<Longrightarrow> backoff_delay a = min (1000 * 2 ^ nat (a - 1)) 30000"
  by (simp add: backoff_delay_def baseDelay_def maxDelay_def power_int_def)

lemma backoff_delay_of_int:
  "1 \<le> a \<Longrightarrow> backoff_delay a = of_int (min (1000 * 2 ^ nat (a - 1)) 30000)"
  by (simp add: backoff_delay_eq of_int_min)

lemma backoff_delay_mono:
  assumes "1 \<le> a" "a \<le> a'"
  shows "backoff_delay a \<le> backoff_delay a'"
proof -
  have "nat (a - 1) \<le> nat (a' - 1)" using assms by simp
  then have "(2::real) ^ nat (a - 1) \<le> 2 ^ nat (a' - 1)"
    by (simp add: power_increasing)
  then have "min (1000 * (2::real) ^ nat (a - 1)) 30000 \<le> min (1000 * 2 ^ nat (a' - 1)) 30000"
    by (intro min.mono) simp_all
  then show ?thesis
    using assms by (simp only: backoff_delay_eq)
qed

lemma backoff_delay_pos: "1 \<le> a \<Longrightarrow> 0 < backoff_delay a"
  by (simp add: backoff_delay_eq min_def)

lemma getRetryDelay_not_rate_limit:
  "\<not> instanceof_RateLimitError e \<Longrightarrow>
   fst (getRetryDelay attempt e w)
     = round (backoff_delay attempt + jitter (random w (drawn w)) (backoff_delay attempt))"
  by (simp add: getRetryDelay_def Math_random_def Let_def)

text \<open>
  C5: for an attempt number of at least 1 and an error that is not a \<open>RateLimitError\<close>
  (no retry-after hint), with \<open>Math.random()\<close> returning a value in \<open>[0, 1)\<close>, the delay
  returned is \<open>round (d + j)\<close> for a jitter \<open>0 \<le> j \<le> 0.3 d\<close>, where the delay before
  jitter is \<open>d = min 30000 (1000 * 2 ^ (attempt - 1))\<close>; \<open>d\<close> never exceeds 30000, does
  not decrease with the attempt number, and the delay returned is never below \<open>d\<close>.
\<close>

theorem getRetryDelay_backoff:
  assumes "1 \<le> attempt" and "\<not> instanceof_RateLimitError e"
    and "0 \<le> random w (drawn w)" and "random w (drawn w) < 1"
  shows "(\<exists>j. 0 \<le> j \<and> j \<le> 0.3 * backoff_delay attempt
              \<and> fst (getRetryDelay attempt e w) = round (backoff_delay attempt + j))
         \<and> backoff_delay attempt = min 30000 (1000 * 2 ^ nat (attempt - 1))
         \<and> backoff_delay attempt \<le> 30000
         \<and> (\<forall>a. 1 \<le> a \<and> a \<le> attempt \<longrightarrow> backoff_delay a \<le> backoff_delay attempt)
         \<and> backoff_delay attempt \<le> of_int (fst (getRetryDelay attempt e w))"
proof -
  define d where "d = backoff_delay attempt"
  define j where "j = jitter (random w (drawn w)) d"
  have dpos: "0 < d" using assms(1) by (simp add: d_def backoff_delay_pos)
  have j0: "0 \<le> j" using assms(3) dpos by (simp add: j_def jitter_def)
  have "random w (drawn w) * (0.3 * d) \<le> 1 * (0.3 * d)"
    using assms(4) dpos by (intro mult_right_mono) simp_all
  then have j1: "j \<le> 0.3 * d" by (simp add: j_def jitter_def mult.assoc)
  have g: "fst (getRetryDelay attempt e w) = round (d + j)"
    using assms(2) by (simp add: getRetryDelay_not_rate_limit d_def j_def)
  obtain k :: int where k: "d = of_int k"
    using backoff_delay_of_int[OF assms(1)] d_def by blast
  have "round (of_int k :: real) \<le> round (d + j)"
    using j0 k by (intro round_mono) simp
  then have lower: "d \<le> of_int (fst (getRetryDelay attempt e w))"
    using g k by simp
  have eq: "d = min 30000 (1000 * 2 ^ nat (attempt - 1))"
    using assms(1) by (simp add: d_def backoff_delay_eq min.commute)
  have mono: "\<forall>a. 1 \<le> a \<and> a \<le> attempt \<longrightarrow> backoff_delay a \<le> d"
    by (simp add: d_def backoff_delay_mono)
  show ?thesis
    using j0 j1 g eq mono lower unfolding d_def[symmetric] by auto
qed

theorem getRetryDelay_backoff_witness:
  "(1::int) \<le> 3
   \<and> \<not> instanceof_RateLimitError (GhostAPIError ''posts.browse'' ''Service Unavailable'' (Some 503))
   \<and> 0 \<le> random \<lparr>now = 0, random = (\<lambda>i. 1/2), drawn = 0\<rparr> 0
   \<and> random \<lparr>now = 0, random = (\<lambda>i. 1/2), drawn = 0\<rparr> 0 < 1
   \<and> backoff_delay 3 = 4000
   \<and> fst (getRetryDelay 3 (GhostAPIError ''posts.browse'' ''Service Unavailable'' (Some 503))
            \<lparr>now = 0, random = (\<lambda>i. 1/2), drawn = 0\<rparr>) = 4600"
  using getRetryDelay_backoff
    [of 3 "GhostAPIError ''posts.browse'' ''Service Unavailable'' (Some 503)"
        "\<lparr>now = 0, random = (\<lambda>i. 1/2), drawn = 0\<rparr>"]
  by (simp add: getRetryDelay_def Math_random_def Let_def jitter_def)








section \<open>Properties of the cache\<close>

lemma keys_map_delete: "set (map_keys (map_delete c k)) = set (map_keys c) - {k}"
  by (auto simp: map_keys_def map_delete_def)


lemma keys_map_set: "set (map_keys (map_set c k v)) = insert k (set (map_keys c))"
proof (induction c)
  case Nil
  then show ?case by (simp add: map_keys_def)
next
  case (Cons p c)
  obtain k' v' where p: "p = (k', v')" by (cases p)
  from Cons show ?case unfolding p map_keys_def by (cases "k' = k") auto
qed


















text \<open>
  C6: the code breaks the invariant on a \<open>set\<close> of a key that is present. With capacity
  3, \<open>set a; set a\<close> leaves the access order \<open>[a, a]\<close> for the single stored key
  \<open>a\<close>. In \<open>set a; set b; set a; set c; set d\<close> the last call then evicts \<open>a\<close>,
  used after \<open>b\<close>, keeps \<open>b\<close>, and leaves \<open>a\<close> in the access order though it is
  no longer stored.
\<close>

theorem set_existing_key_duplicates_access_order:
  "accessOrder (cache_run (\<lambda>p. None) (LRUCache 3 300000)
      [Set ''a'' (1::int) None 0, Set ''a'' 2 None 1]) = [''a'', ''a'']
   \<and> map_keys (cache (cache_run (\<lambda>p. None) (LRUCache 3 300000)
      [Set ''a'' (1::int) None 0, Set ''a'' 2 None 1])) = [''a'']
   \<and> map_keys (cache (cache_run (\<lambda>p. None) (LRUCache 3 300000)
      [Set ''a'' (1::int) None 0, Set ''b'' 2 None 1, Set ''a'' 3 None 2, Set ''c'' 4 None 3,
       Set ''d'' 5 None 4])) = [''b'', ''c'', ''d'']
   \<and> accessOrder (cache_run (\<lambda>p. None) (LRUCache 3 300000)
      [Set ''a'' (1::int) None 0, Set ''b'' 2 None 1, Set ''a'' 3 None 2, Set ''c'' 4 None 3,
       Set ''d'' 5 None 4]) = [''b'', ''a'', ''c'', ''d'']"
  by (simp add: cache_run_def LRUCache_def lru_set_def map_size_def map_keys_def
        map_delete_def or_default_def)


text \<open>
  The other operations keep the invariant: \<open>get\<close>, \<open>invalidate\<close>, and a \<open>set\<close> of a
  key that is not stored.
\<close>

lemma evict_exact:
  "distinct order \<Longrightarrow> set order = set (map_keys c) \<Longrightarrow>
   distinct (snd (evict m c order))
   \<and> set (snd (evict m c order)) = set (map_keys (fst (evict m c order)))
   \<and> set (map_keys (fst (evict m c order))) \<subseteq> set (map_keys c)"
proof (induction order arbitrary: c)
  case Nil
  then show ?case by simp
next
  case (Cons k order)
  have "distinct order" "set order = set (map_keys (map_delete c k))"
    using Cons.prems by (auto simp: keys_map_delete)
  from Cons.IH[OF this] Cons.prems show ?case
    by (auto simp: keys_map_delete)
qed

lemma map_get_Some_key: "map_get m k = Some v \<Longrightarrow> k \<in> set (map_keys m)"
  by (induction m) (auto simp: map_keys_def split: if_splits)

lemma order_inv_get: "order_inv c \<Longrightarrow> order_inv (snd (lru_get key t c))"
  by (auto simp: order_inv_def lru_get_def keys_map_delete dest: map_get_Some_key
        split: option.splits)

lemma order_inv_invalidate_key: "order_inv c \<Longrightarrow> order_inv (invalidate_key test c key)"
  by (auto simp: order_inv_def invalidate_key_def keys_map_delete)

lemma order_inv_invalidate:
  "order_inv c \<Longrightarrow> lru_invalidate regexp pattern c = Inr c' \<Longrightarrow> order_inv c'"
proof -
  have fold: "order_inv d \<Longrightarrow> order_inv (foldl (invalidate_key test) d ks)" for test ks
    and d :: "'a lru_cache"
    by (induction ks arbitrary: d) (simp_all add: order_inv_invalidate_key)
  assume "order_inv c" "lru_invalidate regexp pattern c = Inr c'"
  then show ?thesis
    using fold[of c]
    by (auto simp: lru_invalidate_def order_inv_def map_keys_def split: if_splits option.splits)
qed

lemma order_inv_set_new_key:
  assumes "order_inv c" "key \<notin> set (map_keys (cache c))"
  shows "order_inv (lru_set key v customTTL t c)"
proof -
  obtain c1 order1 where e: "evict (maxSize c) (cache c) (accessOrder c) = (c1, order1)"
    by (cases "evict (maxSize c) (cache c) (accessOrder c)")
  from evict_exact[of "accessOrder c" "cache c" "maxSize c"] assms(1) e
  have "distinct order1" "set order1 = set (map_keys c1)"
    "set (map_keys c1) \<subseteq> set (map_keys (cache c))"
    by (simp_all add: order_inv_def)
  then show ?thesis
    using assms(2) by (auto simp: order_inv_def lru_set_def e Let_def keys_map_set)
qed


section \<open>The subscription manager after unsubscribe\<close>

subsection \<open>Maps\<close>

lemma set_map_set: "set (map_set m k v) \<subseteq> insert (k, v) (set m)"
  by (induction m) (auto split: if_splits)

lemma set_map_delete: "set (map_delete m k) = {p \<in> set m. fst p \<noteq> k}"
  by (auto simp: map_delete_def)

lemma keys_of_map_set: "fst ` set (map_set m k v) = insert k (fst ` set m)"
proof (induction m)
  case Nil
  then show ?case by simp
next
  case (Cons p m)
  obtain k' v' where p: "p = (k', v')" by (cases p)
  from Cons show ?case unfolding p by (cases "k' = k") auto
qed

lemma distinct_map_set: "distinct (map fst m) \<Longrightarrow> distinct (map fst (map_set m k v))"
proof (induction m)
  case Nil
  then show ?case by simp
next
  case (Cons p m)
  obtain k' v' where p: "p = (k', v')" by (cases p)
  from Cons show ?case unfolding p
    by (cases "k' = k") (auto simp: keys_of_map_set)
qed

lemma distinct_map_delete: "distinct (map fst m) \<Longrightarrow> distinct (map fst (map_delete m k))"
  by (simp add: map_delete_def distinct_map_filter)

lemma map_get_iff_mem:
  "distinct (map fst m) \<Longrightarrow> map_get m k = Some v \<longleftrightarrow> (k, v) \<in> set m"
  by (induction m) (auto simp: rev_image_eqI split: if_splits)

lemma map_set_same_key:
  assumes "distinct (map fst m)" "(k, v') \<in> set (map_set m k v)"
  shows "v' = v"
proof -
  have "map_get (map_set m k v) k = Some v'"
    using assms by (simp add: map_get_iff_mem distinct_map_set)
  then show ?thesis by (simp add: map_get_map_set)
qed


subsection \<open>What each method changes\<close>

lemma stopPolling_fields:
  "heap (stopPolling sid m) = heap m" "subscriptions (stopPolling sid m) = subscriptions m"
  "inflight (stopPolling sid m) = inflight m" "delivered (stopPolling sid m) = delivered m"
  "set (timers (stopPolling sid m)) \<subseteq> set (timers m)"
  "trying (stopPolling sid m) = trying m"
  by (auto simp: stopPolling_def split: option.splits)

lemma unsubscribe_fields:
  "heap (snd (unsubscribe sid m)) = heap m"
  "inflight (snd (unsubscribe sid m)) = inflight m"
  "delivered (snd (unsubscribe sid m)) = delivered m"
  "set (timers (snd (unsubscribe sid m))) \<subseteq> set (timers m)"
  "set (subscriptions (snd (unsubscribe sid m))) \<subseteq> set (subscriptions m)"
  "trying (snd (unsubscribe sid m)) = trying m"
  using stopPolling_fields(5)[of sid m]
  by (auto simp: unsubscribe_def Let_def stopPolling_fields set_map_delete split: option.splits)

lemma deliver_fields:
  "heap (deliver a ev m) = heap m" "subscriptions (deliver a ev m) = subscriptions m"
  "pollingIntervals (deliver a ev m) = pollingIntervals m" "timers (deliver a ev m) = timers m"
  "inflight (deliver a ev m) = inflight m" "trying (deliver a ev m) = trying m"
  "delivered (deliver a ev m) = delivered m @ [(a, ev)]"
  by (simp_all add: deliver_def)

lemma poll_resumes_fields:
  "length (heap (poll_resumes str a result t m)) = length (heap m)"
  "subscriptions (poll_resumes str a result t m) = subscriptions m"
  "pollingIntervals (poll_resumes str a result t m) = pollingIntervals m"
  "timers (poll_resumes str a result t m) = timers m"
  "inflight (poll_resumes str a result t m) = inflight m"
  by (auto simp: poll_resumes_def deliver_def Let_def split: sum.splits)

text \<open>A cycle that resumes calls the callback at most once, and only then can it be inside
  the update callback.\<close>

lemma poll_resumes_calls:
  "(delivered (poll_resumes str a result t m) = delivered m
      \<and> trying (poll_resumes str a result t m) = trying m)
   \<or> (\<exists>ev. delivered (poll_resumes str a result t m) = delivered m @ [(a, ev)]
         \<and> (trying (poll_resumes str a result t m) = trying m
              \<or> trying (poll_resumes str a result t m) = trying m @ [a]))"
  by (auto simp: poll_resumes_def deliver_def Let_def split: sum.splits)

lemma callback_returns_fields:
  "heap (callback_returns a m) = heap m" "subscriptions (callback_returns a m) = subscriptions m"
  "pollingIntervals (callback_returns a m) = pollingIntervals m"
  "timers (callback_returns a m) = timers m" "inflight (callback_returns a m) = inflight m"
  "delivered (callback_returns a m) = delivered m"
  by (simp_all add: callback_returns_def)

lemma callback_throws_fields:
  "heap (callback_throws a err t m) = heap m"
  "subscriptions (callback_throws a err t m) = subscriptions m"
  "pollingIntervals (callback_throws a err t m) = pollingIntervals m"
  "timers (callback_throws a err t m) = timers m"
  "inflight (callback_throws a err t m) = inflight m"
  by (simp_all add: callback_throws_def deliver_def)

lemma notify_visit_fields:
  "heap (notify_visit sid uri d ty t m) = heap m"
  "subscriptions (notify_visit sid uri d ty t m) = subscriptions m"
  "pollingIntervals (notify_visit sid uri d ty t m) = pollingIntervals m"
  "timers (notify_visit sid uri d ty t m) = timers m"
  "inflight (notify_visit sid uri d ty t m) = inflight m"
  "trying (notify_visit sid uri d ty t m) = trying m"
  by (simp_all add: notify_visit_def deliver_def split: option.splits)

lemma subscribe_snd:
  "snd (subscribe uri cb options sid m) =
     (let a = length (heap m);
          m1 = m\<lparr>heap := heap m @ [\<lparr>sub_id = sid, sub_uri = uri, callback = cb,
                                     lastValue = None, sub_options = options\<rparr>],
                 subscriptions := map_set (subscriptions m) sid a\<rparr>
      in if enablePolling options
         then m1\<lparr>inflight := inflight m @ [a],
                 timers := timers m @ [(next_timer m, a, or_default (pollingInterval options) 30000)],
                 next_timer := Suc (next_timer m),
                 pollingIntervals := map_set (pollingIntervals m) sid (next_timer m)\<rparr>
         else m1)"
  by (simp add: subscribe_def startPolling_def pollFunc_def Let_def map_get_map_set)

subsection \<open>The invariant of the manager\<close>

lemma manager_inv_init: "manager_inv ResourceSubscriptionManager"
  by (simp add: manager_inv_def ResourceSubscriptionManager_def)

lemma manager_inv_frame:
  assumes "manager_inv m" "length (heap m') = length (heap m)"
    "subscriptions m' = subscriptions m" "pollingIntervals m' = pollingIntervals m"
    "timers m' = timers m"
  shows "manager_inv m'"
  using assms by (simp add: manager_inv_def)

lemma manager_inv_register:
  assumes inv: "manager_inv m"
  shows "manager_inv (m\<lparr>heap := heap m @ [s],
                         subscriptions := map_set (subscriptions m) sid (length (heap m))\<rparr>)"
proof -
  let ?subs = "map_set (subscriptions m) sid (length (heap m))"
  have sub: "set ?subs \<subseteq> insert (sid, length (heap m)) (set (subscriptions m))"
    by (rule set_map_set)
  have old: "\<And>s a. (s, a) \<in> set (subscriptions m) \<Longrightarrow> a < length (heap m)"
    using inv by (auto simp: manager_inv_def)
  have d: "distinct (map fst ?subs)"
    using inv by (simp add: manager_inv_def distinct_map_set)
  have b: "\<forall>(s, a) \<in> set ?subs. a < length (heap m @ [s'])" for s' :: "'a subscription"
    using sub old by fastforce
  have i: "\<forall>(s1, a1) \<in> set ?subs. \<forall>(s2, a2) \<in> set ?subs. a1 = a2 \<longrightarrow> s1 = s2"
  proof (clarify)
    fix s1 s2 a assume m1: "(s1, a) \<in> set ?subs" and m2: "(s2, a) \<in> set ?subs"
    show "s1 = s2"
    proof (cases "a = length (heap m)")
      case True
      then have "s1 = sid" "s2 = sid" using m1 m2 sub old by fastforce+
      then show ?thesis by simp
    next
      case False
      then have "(s1, a) \<in> set (subscriptions m)" "(s2, a) \<in> set (subscriptions m)"
        using m1 m2 sub by auto
      then show ?thesis using inv by (fastforce simp: manager_inv_def)
    qed
  qed
  have t: "\<forall>(h, a, i) \<in> set (timers m). a < length (heap m @ [s])
            \<and> (\<forall>sid'. (sid', a) \<in> set ?subs \<longrightarrow> map_get (pollingIntervals m) sid' = Some h)"
  proof (clarify)
    fix h a i assume tm: "(h, a, i) \<in> set (timers m)"
    then have lt: "a < length (heap m)" using inv by (fastforce simp: manager_inv_def)
    have "map_get (pollingIntervals m) sid' = Some h" if "(sid', a) \<in> set ?subs" for sid'
    proof -
      from that lt sub have "(sid', a) \<in> set (subscriptions m)" by auto
      with tm inv show ?thesis by (fastforce simp: manager_inv_def)
    qed
    with lt show "a < length (heap m @ [s])
            \<and> (\<forall>sid'. (sid', a) \<in> set ?subs \<longrightarrow> map_get (pollingIntervals m) sid' = Some h)"
      by simp
  qed
  show ?thesis
    using d b[of s] i t by (simp add: manager_inv_def)
qed

lemma manager_inv_add_timer:
  assumes inv: "manager_inv m" and reg: "map_get (subscriptions m) sid = Some a"
    and fresh: "\<forall>(h, a', i) \<in> set (timers m). a' \<noteq> a"
  shows "manager_inv (m\<lparr>inflight := fl, timers := timers m @ [(hn, a, iv)], next_timer := nt,
                         pollingIntervals := map_set (pollingIntervals m) sid hn\<rparr>)"
proof -
  have d: "distinct (map fst (subscriptions m))" using inv by (simp add: manager_inv_def)
  have mem: "(sid, a) \<in> set (subscriptions m)" using reg d by (simp add: map_get_iff_mem)
  have lt: "a < length (heap m)" using mem inv by (fastforce simp: manager_inv_def)
  have new: "map_get (map_set (pollingIntervals m) sid hn) sid' = Some hn"
    if "(sid', a) \<in> set (subscriptions m)" for sid'
  proof -
    from that mem inv have "sid' = sid" by (fastforce simp: manager_inv_def)
    then show ?thesis by (simp add: map_get_map_set)
  qed
  have old: "a' < length (heap m)
      \<and> (\<forall>sid'. (sid', a') \<in> set (subscriptions m)
             \<longrightarrow> map_get (map_set (pollingIntervals m) sid hn) sid' = Some h)"
    if tm: "(h, a', i) \<in> set (timers m)" for h a' i
  proof (intro conjI allI impI)
    show "a' < length (heap m)" using tm inv by (fastforce simp: manager_inv_def)
  next
    fix sid' assume s: "(sid', a') \<in> set (subscriptions m)"
    have "a' \<noteq> a" using fresh tm by auto
    then have "sid' \<noteq> sid"
      using s mem d by (metis map_get_iff_mem option.inject)
    moreover have "map_get (pollingIntervals m) sid' = Some h"
      using s tm inv by (fastforce simp: manager_inv_def)
    ultimately show "map_get (map_set (pollingIntervals m) sid hn) sid' = Some h"
      by (simp add: map_get_map_set_other)
  qed
  show ?thesis
    using inv lt new old by (auto simp: manager_inv_def)
qed

lemma manager_inv_subscribe:
  assumes inv: "manager_inv m"
  shows "manager_inv (snd (subscribe uri cb options sid m))"
proof -
  define a where "a = length (heap m)"
  define m1 where
    "m1 = m\<lparr>heap := heap m @ [\<lparr>sub_id = sid, sub_uri = uri, callback = cb,
                                lastValue = None, sub_options = options\<rparr>],
            subscriptions := map_set (subscriptions m) sid (length (heap m))\<rparr>"
  have inv1: "manager_inv m1" unfolding m1_def by (rule manager_inv_register[OF inv])
  show ?thesis
  proof (cases "enablePolling options")
    case False
    then show ?thesis using inv1 by (simp add: subscribe_snd Let_def m1_def)
  next
    case True
    have reg: "map_get (subscriptions m1) sid = Some a"
      by (simp add: m1_def a_def map_get_map_set)
    have fresh: "\<forall>(h, a', i) \<in> set (timers m1). a' \<noteq> a"
      using inv by (fastforce simp: manager_inv_def m1_def a_def)
    from manager_inv_add_timer[OF inv1 reg fresh,
        where fl = "inflight m @ [a]" and hn = "next_timer m"
          and iv = "or_default (pollingInterval options) 30000" and nt = "Suc (next_timer m)"]
    show ?thesis using True by (simp add: subscribe_snd Let_def m1_def a_def)
  qed
qed

lemma manager_inv_unsubscribe:
  assumes inv: "manager_inv m"
  shows "manager_inv (snd (unsubscribe sid m))"
proof (cases "map_get (subscriptions m) sid")
  case None
  then show ?thesis using inv by (simp add: unsubscribe_def)
next
  case (Some a)
  define m1 where "m1 = stopPolling sid m"
  have m': "snd (unsubscribe sid m) = m1\<lparr>subscriptions := map_delete (subscriptions m) sid\<rparr>"
    using Some by (simp add: unsubscribe_def Let_def m1_def stopPolling_fields)
  have h1: "heap m1 = heap m" by (simp add: m1_def stopPolling_fields)
  have t1: "set (timers m1) \<subseteq> set (timers m)" by (simp add: m1_def stopPolling_fields)
  have p1: "map_get (pollingIntervals m1) sid' = map_get (pollingIntervals m) sid'"
    if "sid' \<noteq> sid" for sid'
    using that by (simp add: m1_def stopPolling_def map_get_map_delete_other split: option.splits)
  have d: "distinct (map fst (map_delete (subscriptions m) sid))"
    using inv by (simp add: manager_inv_def distinct_map_delete)
  have sub: "set (map_delete (subscriptions m) sid) \<subseteq> set (subscriptions m)"
    by (auto simp: set_map_delete)
  have b: "\<forall>(s, a) \<in> set (map_delete (subscriptions m) sid). a < length (heap m)"
    using inv sub by (fastforce simp: manager_inv_def)
  have i: "\<forall>(s1, a1) \<in> set (map_delete (subscriptions m) sid).
           \<forall>(s2, a2) \<in> set (map_delete (subscriptions m) sid). a1 = a2 \<longrightarrow> s1 = s2"
  proof (clarify)
    fix s1 s2 a
    assume "(s1, a) \<in> set (map_delete (subscriptions m) sid)"
      "(s2, a) \<in> set (map_delete (subscriptions m) sid)"
    then have "(s1, a) \<in> set (subscriptions m)" "(s2, a) \<in> set (subscriptions m)"
      using sub by auto
    then show "s1 = s2" using inv by (fastforce simp: manager_inv_def)
  qed
  have t: "\<forall>(h, a, i) \<in> set (timers m1). a < length (heap m)
            \<and> (\<forall>sid'. (sid', a) \<in> set (map_delete (subscriptions m) sid)
                   \<longrightarrow> map_get (pollingIntervals m1) sid' = Some h)"
  proof (clarify)
    fix h a i assume "(h, a, i) \<in> set (timers m1)"
    then have tm: "(h, a, i) \<in> set (timers m)" using t1 by auto
    have "map_get (pollingIntervals m1) sid' = Some h"
      if "(sid', a) \<in> set (map_delete (subscriptions m) sid)" for sid'
    proof -
      from that have "sid' \<noteq> sid" "(sid', a) \<in> set (subscriptions m)"
        by (auto simp: set_map_delete)
      then show ?thesis using tm inv p1 by (fastforce simp: manager_inv_def)
    qed
    moreover have "a < length (heap m)" using tm inv by (fastforce simp: manager_inv_def)
    ultimately show "a < length (heap m)
            \<and> (\<forall>sid'. (sid', a) \<in> set (map_delete (subscriptions m) sid)
                   \<longrightarrow> map_get (pollingIntervals m1) sid' = Some h)"
      by simp
  qed
  show ?thesis
    unfolding m' using d b i t by (simp add: manager_inv_def h1)
qed

lemma manager_inv_step:
  assumes inv: "manager_inv m"
  shows "manager_inv (manager_step str m ev)"
proof (cases ev)
  case (Subscribe uri cb options sid)
  then show ?thesis using inv by (simp add: manager_inv_subscribe)
next
  case (Unsubscribe sid)
  then show ?thesis using inv by (simp add: manager_inv_unsubscribe)
next
  case (Tick h)
  have "manager_inv (timer_fires h m)"
    by (rule manager_inv_frame[OF inv])
       (simp_all add: timer_fires_def pollFunc_def split: list.splits)
  with Tick show ?thesis by simp
next
  case (Settle k result t)
  have "manager_inv (fetch_settles str k result t m)"
    by (rule manager_inv_frame[OF inv]) (simp_all add: fetch_settles_def poll_resumes_fields)
  with Settle show ?thesis by simp
next
  case (CallbackReturns a)
  have "manager_inv (callback_returns a m)"
    by (rule manager_inv_frame[OF inv]) (simp_all add: callback_returns_fields)
  with CallbackReturns show ?thesis by simp
next
  case (CallbackThrows a err t)
  have "manager_inv (callback_throws a err t m)"
    by (rule manager_inv_frame[OF inv]) (simp_all add: callback_throws_fields)
  with CallbackThrows show ?thesis by simp
next
  case (NotifyVisit sid uri d ty t)
  have "manager_inv (notify_visit sid uri d ty t m)"
    by (rule manager_inv_frame[OF inv]) (simp_all add: notify_visit_fields)
  with NotifyVisit show ?thesis by simp
qed

lemma manager_inv_run: "manager_inv m \<Longrightarrow> manager_inv (manager_run str m evs)"
  unfolding manager_run_def
  by (induction evs arbitrary: m) (simp_all add: manager_inv_step)

subsection \<open>After unsubscribe\<close>

lemma unsubscribe_retires:
  assumes inv: "manager_inv m" and reg: "map_get (subscriptions m) sid = Some a"
  shows "retired a (snd (unsubscribe sid m))"
proof -
  have d: "distinct (map fst (subscriptions m))" using inv by (simp add: manager_inv_def)
  have mem: "(sid, a) \<in> set (subscriptions m)" using reg d by (simp add: map_get_iff_mem)
  have lt: "a < length (heap m)" using mem inv by (fastforce simp: manager_inv_def)
  have m': "snd (unsubscribe sid m)
              = (stopPolling sid m)\<lparr>subscriptions := map_delete (subscriptions m) sid\<rparr>"
    using reg by (simp add: unsubscribe_def Let_def stopPolling_fields)
  have gone: "a \<notin> snd ` set (map_delete (subscriptions m) sid)"
  proof
    assume "a \<in> snd ` set (map_delete (subscriptions m) sid)"
    then obtain s where "(s, a) \<in> set (subscriptions m)" "s \<noteq> sid"
      by (auto simp: set_map_delete)
    with mem inv show False by (fastforce simp: manager_inv_def)
  qed
  have no_timer: "a' \<noteq> a" if tm: "(h, a', i) \<in> set (timers (stopPolling sid m))" for h a' i
  proof
    assume "a' = a"
    with tm have in_m: "(h, a, i) \<in> set (timers m)"
      using stopPolling_fields(5)[of sid m] by auto
    with mem inv have "map_get (pollingIntervals m) sid = Some h"
      by (fastforce simp: manager_inv_def)
    then have "timers (stopPolling sid m) = filter (\<lambda>(h', a, i). h' \<noteq> h) (timers m)"
      by (simp add: stopPolling_def)
    with tm show False by simp
  qed
  show ?thesis
    unfolding m' retired_def using lt gone no_timer by (auto simp: stopPolling_fields)
qed

lemma count_remove_nth:
  assumes "k < length xs"
  shows "length (filter P (take k xs @ drop (Suc k) xs)) + (if P (xs ! k) then 1 else 0)
           = length (filter P xs)"
proof -
  have "length (filter P xs) = length (filter P (take k xs @ xs ! k # drop (Suc k) xs))"
    using assms by (simp add: id_take_nth_drop[symmetric])
  then show ?thesis by simp
qed

lemma invocations_append:
  "delivered m' = delivered m @ tgts \<Longrightarrow>
   invocations_of a m' = invocations_of a m + length (filter (\<lambda>(a', ev). a' = a) tgts)"
  by (simp add: invocations_of_def)

lemma retired_shrink:
  assumes "retired a m" "length (heap m') = length (heap m)"
    "set (subscriptions m') \<subseteq> set (subscriptions m)" "set (timers m') \<subseteq> set (timers m)"
  shows "retired a m'"
proof -
  have 1: "a < length (heap m')" using assms(1,2) by (simp add: retired_def)
  have "snd ` set (subscriptions m') \<subseteq> snd ` set (subscriptions m)"
    using assms(3) by (rule image_mono)
  then have 2: "a \<notin> snd ` set (subscriptions m')" using assms(1) by (auto simp: retired_def)
  have 3: "\<forall>(h, a', i) \<in> set (timers m'). a' \<noteq> a"
  proof (clarify)
    fix h i assume "(h, a, i) \<in> set (timers m')"
    then have "(h, a, i) \<in> set (timers m)" using assms(4) by auto
    then show False using assms(1) by (auto simp: retired_def)
  qed
  show ?thesis using 1 2 3 by (simp add: retired_def)
qed

lemma retired_subscribe:
  assumes r: "retired a m"
  shows "step_ok a m (snd (subscribe uri cb options sid m))"
proof -
  have ne: "a \<noteq> length (heap m)" using r by (simp add: retired_def)
  have "a \<notin> snd ` set (map_set (subscriptions m) sid (length (heap m)))"
  proof
    assume "a \<in> snd ` set (map_set (subscriptions m) sid (length (heap m)))"
    then obtain s where "(s, a) \<in> set (map_set (subscriptions m) sid (length (heap m)))"
      by auto
    then have "(s, a) \<in> insert (sid, length (heap m)) (set (subscriptions m))"
      using set_map_set[of "subscriptions m" sid "length (heap m)"] by blast
    then have "(s, a) \<in> set (subscriptions m)" using ne by auto
    then have "a \<in> snd ` set (subscriptions m)" by force
    with r show False by (simp add: retired_def)
  qed
  moreover have "\<forall>(h, a', i) \<in> set (timers (snd (subscribe uri cb options sid m))). a' \<noteq> a"
  proof (clarify)
    fix h i assume "(h, a, i) \<in> set (timers (snd (subscribe uri cb options sid m)))"
    then have "(h, a, i) \<in> set (timers m)"
      using ne by (simp add: subscribe_snd Let_def split: if_splits)
    then show False using r by (auto simp: retired_def)
  qed
  moreover have "a < length (heap (snd (subscribe uri cb options sid m)))"
    using r by (simp add: subscribe_snd Let_def retired_def)
  moreover have "subscriptions (snd (subscribe uri cb options sid m))
      = map_set (subscriptions m) sid (length (heap m))"
    by (simp add: subscribe_snd Let_def)
  ultimately have "retired a (snd (subscribe uri cb options sid m))"
    by (simp add: retired_def)
  moreover have "invocations_of a (snd (subscribe uri cb options sid m)) = invocations_of a m"
    "inflight_of a (snd (subscribe uri cb options sid m)) = inflight_of a m"
    "trying_of a (snd (subscribe uri cb options sid m)) = trying_of a m"
    using ne
    by (simp_all add: subscribe_snd Let_def invocations_of_def inflight_of_def trying_of_def)
  ultimately show ?thesis by (simp add: step_ok_def pending_work_def)
qed


lemma retired_unsubscribe:
  assumes r: "retired a m"
  shows "step_ok a m (snd (unsubscribe sid m))"
proof -
  have "retired a (snd (unsubscribe sid m))"
    by (rule retired_shrink[OF r]) (simp_all add: unsubscribe_fields)
  then show ?thesis
    by (simp add: step_ok_def pending_work_def invocations_of_def inflight_of_def
          trying_of_def unsubscribe_fields)
qed

lemma retired_tick:
  assumes r: "retired a m"
  shows "step_ok a m (timer_fires h m)"
proof (cases "filter (\<lambda>(h', a, i). h' = h) (timers m)")
  case Nil
  with r show ?thesis by (simp add: timer_fires_def step_ok_def)
next
  case (Cons p rest)
  obtain h' a' i where p: "p = (h', a', i)" by (cases p)
  have "p \<in> set (filter (\<lambda>(h', a, i). h' = h) (timers m))" using Cons by simp
  then have "(h', a', i) \<in> set (timers m)" using p by auto
  then have ne: "a' \<noteq> a" using r by (auto simp: retired_def)
  have eq: "timer_fires h m = m\<lparr>inflight := inflight m @ [a']\<rparr>"
    using Cons p by (simp add: timer_fires_def pollFunc_def)
  have "retired a (m\<lparr>inflight := inflight m @ [a']\<rparr>)"
    using r by (simp add: retired_def)
  then show ?thesis
    unfolding eq using ne
    by (simp add: step_ok_def pending_work_def invocations_of_def inflight_of_def
          trying_of_def)
qed


lemma count_remove1:
  "length (filter (\<lambda>x. x = a) (remove1 b xs)) + (if b = a \<and> a \<in> set xs then 1 else 0)
     = length (filter (\<lambda>x. x = a) xs)"
  by (induction xs) auto

lemma retired_settle:
  assumes r: "retired a m"
  shows "step_ok a m (fetch_settles str k result t m)"
proof (cases "k < length (inflight m)")
  case False
  with r show ?thesis by (simp add: fetch_settles_def step_ok_def)
next
  case True
  define m0 where "m0 = m\<lparr>inflight := take k (inflight m) @ drop (Suc k) (inflight m)\<rparr>"
  define a' where "a' = inflight m ! k"
  define m' where "m' = poll_resumes str a' result t m0"
  have step: "fetch_settles str k result t m = m'"
    using True by (simp add: fetch_settles_def m'_def m0_def a'_def)
  have ret: "retired a m'"
    by (rule retired_shrink[OF r]) (simp_all add: m'_def poll_resumes_fields m0_def)
  have fl: "inflight_of a m' + (if a' = a then 1 else 0) = inflight_of a m"
    using count_remove_nth[OF True, of "\<lambda>x. x = a"]
    by (simp add: inflight_of_def m'_def poll_resumes_fields m0_def a'_def)
  have base: "delivered m0 = delivered m" "trying m0 = trying m" by (simp_all add: m0_def)
  consider
    (quiet) "delivered m' = delivered m" "trying m' = trying m"
    | (called) ev where "delivered m' = delivered m @ [(a', ev)]" "trying m' = trying m"
    | (inside) ev where "delivered m' = delivered m @ [(a', ev)]" "trying m' = trying m @ [a']"
    using poll_resumes_calls[of str a' result t m0] unfolding m'_def[symmetric] base by blast
  then show ?thesis
  proof cases
    case quiet
    then have "invocations_of a m' = invocations_of a m" "trying_of a m' = trying_of a m"
      by (simp_all add: invocations_of_def trying_of_def)
    with ret fl show ?thesis
      unfolding step by (simp add: step_ok_def pending_work_def split: if_splits)
  next
    case called
    then have "invocations_of a m' = invocations_of a m + (if a' = a then 1 else 0)"
      "trying_of a m' = trying_of a m"
      by (simp_all add: invocations_of_def trying_of_def)
    with ret fl show ?thesis
      unfolding step by (simp add: step_ok_def pending_work_def split: if_splits)
  next
    case inside
    then have "invocations_of a m' = invocations_of a m + (if a' = a then 1 else 0)"
      "trying_of a m' = trying_of a m + (if a' = a then 1 else 0)"
      by (simp_all add: invocations_of_def trying_of_def)
    with ret fl show ?thesis
      unfolding step by (simp add: step_ok_def pending_work_def split: if_splits)
  qed
qed

lemma retired_returns:
  assumes r: "retired a m"
  shows "step_ok a m (callback_returns a' m)"
proof -
  have ret: "retired a (callback_returns a' m)"
    by (rule retired_shrink[OF r]) (simp_all add: callback_returns_fields)
  have "trying_of a (callback_returns a' m) \<le> trying_of a m"
    using count_remove1[of a a' "trying m"] by (simp add: trying_of_def callback_returns_def)
  with ret show ?thesis
    by (simp add: step_ok_def pending_work_def invocations_of_def inflight_of_def
          callback_returns_fields)
qed

lemma retired_throws:
  assumes r: "retired a m"
  shows "step_ok a m (callback_throws a' err t m)"
proof (cases "a' \<in> set (trying m)")
  case False
  with r show ?thesis by (simp add: callback_throws_def step_ok_def)
next
  case True
  have ret: "retired a (callback_throws a' err t m)"
    by (rule retired_shrink[OF r]) (simp_all add: callback_throws_fields)
  have tr: "trying_of a (callback_throws a' err t m) + (if a' = a then 1 else 0)
              = trying_of a m"
    using count_remove1[of a a' "trying m"] True
    by (auto simp: trying_of_def callback_throws_def deliver_def)
  have iv: "invocations_of a (callback_throws a' err t m)
              = invocations_of a m + (if a' = a then 1 else 0)"
    using True by (simp add: invocations_of_def callback_throws_def deliver_def)
  show ?thesis
    using ret tr iv
    by (simp add: step_ok_def pending_work_def inflight_of_def callback_throws_fields
          split: if_splits)
qed

lemma map_get_Some_mem: "map_get m k = Some v \<Longrightarrow> (k, v) \<in> set m"
  by (induction m) (auto split: if_splits)

lemma retired_notify:
  assumes r: "retired a m"
  shows "step_ok a m (notify_visit sid uri d ty t m)"
proof -
  have ret: "retired a (notify_visit sid uri d ty t m)"
    by (rule retired_shrink[OF r]) (simp_all add: notify_visit_fields)
  have ne: "a' \<noteq> a" if "map_get (subscriptions m) sid = Some a'" for a'
  proof
    assume "a' = a"
    with that have "map_get (subscriptions m) sid = Some a" by simp
    then have "(sid, a) \<in> set (subscriptions m)" by (rule map_get_Some_mem)
    then have "a \<in> snd ` set (subscriptions m)" by force
    with r show False by (simp add: retired_def)
  qed
  have "invocations_of a (notify_visit sid uri d ty t m) = invocations_of a m"
    using ne by (auto simp: notify_visit_def deliver_def invocations_of_def split: option.splits)
  with ret show ?thesis
    by (simp add: step_ok_def pending_work_def inflight_of_def trying_of_def
          notify_visit_fields)
qed

lemma retired_step:
  assumes r: "retired a m"
  shows "step_ok a m (manager_step str m ev)"
proof (cases ev)
  case (Subscribe uri cb options sid)
  then show ?thesis using retired_subscribe[OF r] by simp
next
  case (Unsubscribe sid)
  then show ?thesis using retired_unsubscribe[OF r] by simp
next
  case (Tick h)
  then show ?thesis using retired_tick[OF r] by simp
next
  case (Settle k result t)
  then show ?thesis using retired_settle[OF r] by simp
next
  case (CallbackReturns a')
  then show ?thesis using retired_returns[OF r] by simp
next
  case (CallbackThrows a' err t)
  then show ?thesis using retired_throws[OF r] by simp
next
  case (NotifyVisit sid uri d ty t)
  then show ?thesis using retired_notify[OF r] by simp
qed

lemma retired_run:
  "retired a m \<Longrightarrow> step_ok a m (manager_run str m evs)"
proof (induction evs arbitrary: m)
  case Nil
  then show ?case by (simp add: manager_run_def step_ok_def)
next
  case (Cons ev evs)
  have s: "step_ok a m (manager_step str m ev)" by (rule retired_step[OF Cons.prems])
  then have "retired a (manager_step str m ev)" by (simp add: step_ok_def)
  then have "step_ok a (manager_step str m ev) (manager_run str (manager_step str m ev) evs)"
    by (rule Cons.IH)
  with s show ?case by (simp add: manager_run_def step_ok_def)
qed

text \<open>What a poll cycle under way does, whether or not its subscription is registered.\<close>

lemma settle_failed_invokes:
  "k < length (inflight m) \<Longrightarrow>
   delivered (fetch_settles str k (Inl err) t m)
     = delivered m @ [(inflight m ! k, error_event (sub_uri (heap m ! (inflight m ! k))) err t)]"
  by (simp add: fetch_settles_def poll_resumes_def deliver_def)

lemma settle_changed_invokes:
  "k < length (inflight m) \<Longrightarrow> changed str v (lastValue (heap m ! (inflight m ! k))) \<Longrightarrow>
   inflight m ! k < length (heap m) \<Longrightarrow>
   delivered (fetch_settles str k (Inr v) t m)
     = delivered m @ [(inflight m ! k, update_event (sub_uri (heap m ! (inflight m ! k))) v t)]"
  by (simp add: fetch_settles_def poll_resumes_def deliver_def Let_def)

lemma throw_invokes:
  "a \<in> set (trying m) \<Longrightarrow>
   delivered (callback_throws a err t m)
     = delivered m @ [(a, error_event (sub_uri (heap m ! a)) err t)]"
  by (simp add: callback_throws_def deliver_def)

text \<open>
  C7, as the claim states it, fails: a subscription with polling has its first fetch in
  flight when \<open>subscribe\<close> returns; after \<open>unsubscribe\<close> has returned (nothing
  delivered so far), the fetch settles with a value and the callback is invoked with an
  update event.
\<close>

theorem unsubscribed_callback_counterexample:
  "fst (unsubscribe ''sub_1''
     (snd (subscribe ''ghost/posts'' 7
            \<lparr>pollingInterval = None, enablePolling = True\<rparr> ''sub_1''
            (ResourceSubscriptionManager :: string manager)))) = None
   \<and> delivered (snd (unsubscribe ''sub_1''
     (snd (subscribe ''ghost/posts'' 7
            \<lparr>pollingInterval = None, enablePolling = True\<rparr> ''sub_1''
            (ResourceSubscriptionManager :: string manager))))) = []
   \<and> delivered (manager_run (\<lambda>v. v)
       (snd (unsubscribe ''sub_1''
         (snd (subscribe ''ghost/posts'' 7
            \<lparr>pollingInterval = None, enablePolling = True\<rparr> ''sub_1''
            (ResourceSubscriptionManager :: string manager)))))
       [Settle 0 (Inr ''[1,2]'') 5])
     = [(0, \<lparr>ev_type = ''update'', ev_uri = ''ghost/posts'', ev_data = Some ''[1,2]'',
              ev_error = None, ev_timestamp = 5\<rparr>)]"
  by (simp add: ResourceSubscriptionManager_def subscribe_def startPolling_def pollFunc_def
        unsubscribe_def stopPolling_def Let_def or_default_def map_delete_def manager_run_def
        fetch_settles_def poll_resumes_def changed_def deliver_def update_event_def)

text \<open>
  C7, amended: in any state the manager can reach, \<open>unsubscribe\<close> of a registered
  identifier succeeds, and from then on, whatever happens, a timer that fires starts no
  fetch for the removed subscription and a notification does not reach it: neither invokes
  its callback. Poll cycles that had begun before are not discarded. A fetch of the
  subscription that is in flight, whenever it settles, invokes the callback: with an
  error event when the fetch failed, with an update event when the value differs from
  \<open>lastValue\<close>. A cycle that is inside the callback called with an update event (the
  callback may have called \<open>unsubscribe\<close> itself) invokes the callback again, with an
  error event, when that callback throws. So after \<open>unsubscribe\<close> has returned, the
  callback is invoked at most twice for each of its fetches in flight at that moment and
  once for each of its cycles then inside the update callback, and never again when there
  is neither.
\<close>

theorem unsubscribed_callback_only_from_inflight:
  fixes str :: "'v \<Rightarrow> string"
  assumes "map_get (subscriptions (manager_run str ResourceSubscriptionManager before)) sid
             = Some a"
  shows "(let m = manager_run str ResourceSubscriptionManager before;
              m' = manager_run str (snd (unsubscribe sid m)) later
          in fst (unsubscribe sid m) = None
             \<and> invocations_of a m'
                 \<le> invocations_of a m + 2 * inflight_of a m + trying_of a m
             \<and> (inflight_of a m = 0 \<and> trying_of a m = 0
                  \<longrightarrow> invocations_of a m' = invocations_of a m)
             \<and> (\<forall>h. inflight_of a (timer_fires h m') = inflight_of a m'
                    \<and> invocations_of a (timer_fires h m') = invocations_of a m')
             \<and> (\<forall>sid' uri d ty t.
                    invocations_of a (notify_visit sid' uri d ty t m') = invocations_of a m')
             \<and> (\<forall>k err t. k < length (inflight m') \<and> inflight m' ! k = a
                    \<longrightarrow> delivered (fetch_settles str k (Inl err) t m')
                          = delivered m' @ [(a, error_event (sub_uri (heap m' ! a)) err t)])
             \<and> (\<forall>k v t. k < length (inflight m') \<and> inflight m' ! k = a
                      \<and> changed str v (lastValue (heap m' ! a))
                    \<longrightarrow> delivered (fetch_settles str k (Inr v) t m')
                          = delivered m' @ [(a, update_event (sub_uri (heap m' ! a)) v t)])
             \<and> (\<forall>err t. a \<in> set (trying m')
                    \<longrightarrow> delivered (callback_throws a err t m')
                          = delivered m' @ [(a, error_event (sub_uri (heap m' ! a)) err t)]))"
proof -
  define m where "m = manager_run str ResourceSubscriptionManager before"
  define m1 where "m1 = snd (unsubscribe sid m)"
  define m' where "m' = manager_run str m1 later"
  have inv: "manager_inv m"
    unfolding m_def by (rule manager_inv_run[OF manager_inv_init])
  have reg: "map_get (subscriptions m) sid = Some a" using assms by (simp add: m_def)
  have ok: "fst (unsubscribe sid m) = None" using reg by (simp add: unsubscribe_def Let_def)
  have same: "invocations_of a m1 = invocations_of a m" "inflight_of a m1 = inflight_of a m"
    "trying_of a m1 = trying_of a m"
    by (simp_all add: m1_def invocations_of_def inflight_of_def trying_of_def
          unsubscribe_fields)
  have r1: "retired a m1" unfolding m1_def by (rule unsubscribe_retires[OF inv reg])
  then have run: "step_ok a m1 m'" unfolding m'_def by (rule retired_run)
  then have r': "retired a m'" by (simp add: step_ok_def)
  have bound: "invocations_of a m' \<le> invocations_of a m + 2 * inflight_of a m + trying_of a m"
    using run by (simp add: step_ok_def pending_work_def same)
  have mono: "invocations_of a m \<le> invocations_of a m'"
    using run by (simp add: step_ok_def same)
  have never: "inflight_of a m = 0 \<and> trying_of a m = 0
                 \<longrightarrow> invocations_of a m' = invocations_of a m"
    using bound mono by simp
  have tick: "\<forall>h. inflight_of a (timer_fires h m') = inflight_of a m'
                 \<and> invocations_of a (timer_fires h m') = invocations_of a m'"
  proof
    fix h
    have s: "step_ok a m' (timer_fires h m')" by (rule retired_tick[OF r'])
    have "invocations_of a (timer_fires h m') = invocations_of a m'"
      by (simp add: invocations_of_def timer_fires_def pollFunc_def split: list.splits)
    moreover have "trying_of a (timer_fires h m') = trying_of a m'"
      by (simp add: trying_of_def timer_fires_def pollFunc_def split: list.splits)
    moreover have "inflight_of a m' \<le> inflight_of a (timer_fires h m')"
      by (simp add: inflight_of_def timer_fires_def pollFunc_def split: list.splits)
    ultimately show "inflight_of a (timer_fires h m') = inflight_of a m'
                 \<and> invocations_of a (timer_fires h m') = invocations_of a m'"
      using s by (simp add: step_ok_def pending_work_def)
  qed
  have notify: "\<forall>sid' uri d ty t.
                  invocations_of a (notify_visit sid' uri d ty t m') = invocations_of a m'"
  proof (intro allI)
    fix sid' uri d ty t
    have s: "step_ok a m' (notify_visit sid' uri d ty t m')" by (rule retired_notify[OF r'])
    then show "invocations_of a (notify_visit sid' uri d ty t m') = invocations_of a m'"
      by (simp add: step_ok_def pending_work_def inflight_of_def trying_of_def
            notify_visit_fields)
  qed
  have lt: "a < length (heap m')" using r' by (simp add: retired_def)
  have failed: "\<forall>k err t. k < length (inflight m') \<and> inflight m' ! k = a
                    \<longrightarrow> delivered (fetch_settles str k (Inl err) t m')
                          = delivered m' @ [(a, error_event (sub_uri (heap m' ! a)) err t)]"
    using settle_failed_invokes[of _ m' str] by auto
  have changed: "\<forall>k v t. k < length (inflight m') \<and> inflight m' ! k = a
                      \<and> changed str v (lastValue (heap m' ! a))
                    \<longrightarrow> delivered (fetch_settles str k (Inr v) t m')
                          = delivered m' @ [(a, update_event (sub_uri (heap m' ! a)) v t)]"
    using settle_changed_invokes[of _ m' str] lt by auto
  have throws: "\<forall>err t. a \<in> set (trying m')
                    \<longrightarrow> delivered (callback_throws a err t m')
                          = delivered m' @ [(a, error_event (sub_uri (heap m' ! a)) err t)]"
    using throw_invokes[of a m'] by auto
  show ?thesis
    unfolding Let_def m_def[symmetric] m1_def[symmetric] m'_def[symmetric]
    by (intro conjI) (fact ok bound never tick notify failed changed throws)+
qed

text \<open>
  Two runs. In the first the subscription's first cycle has delivered its update and the
  callback has returned before \<open>unsubscribe\<close>: a later tick, settling and notification
  invoke nothing. In the second the callback, called with the update event, calls
  \<open>unsubscribe\<close> itself and then throws: the \<open>catch\<close> block invokes it once more.
\<close>

theorem unsubscribed_callback_only_from_inflight_witness:
  "map_get (subscriptions (manager_run (\<lambda>v. v) (ResourceSubscriptionManager :: string manager)
      [Subscribe ''ghost/posts'' 7 \<lparr>pollingInterval = None, enablePolling = True\<rparr> ''sub_1'',
       Settle 0 (Inr ''[1]'') 1, CallbackReturns 0])) ''sub_1'' = Some 0
   \<and> invocations_of 0 (manager_run (\<lambda>v. v) (ResourceSubscriptionManager :: string manager)
      [Subscribe ''ghost/posts'' 7 \<lparr>pollingInterval = None, enablePolling = True\<rparr> ''sub_1'',
       Settle 0 (Inr ''[1]'') 1, CallbackReturns 0]) = 1
   \<and> invocations_of 0 (manager_run (\<lambda>v. v)
        (snd (unsubscribe ''sub_1''
           (manager_run (\<lambda>v. v) (ResourceSubscriptionManager :: string manager)
             [Subscribe ''ghost/posts'' 7
                \<lparr>pollingInterval = None, enablePolling = True\<rparr> ''sub_1'',
              Settle 0 (Inr ''[1]'') 1, CallbackReturns 0])))
        [Tick 0, Settle 0 (Inr ''[1,2]'') 30001,
         NotifyVisit ''sub_1'' ''ghost/posts'' ''[3]'' ''update'' 30002])
       = 1
   \<and> trying_of 0 (manager_run (\<lambda>v. v) (ResourceSubscriptionManager :: string manager)
      [Subscribe ''ghost/posts'' 7 \<lparr>pollingInterval = None, enablePolling = True\<rparr> ''sub_1'',
       Settle 0 (Inr ''[1]'') 1]) = 1
   \<and> invocations_of 0 (manager_run (\<lambda>v. v)
        (snd (unsubscribe ''sub_1''
           (manager_run (\<lambda>v. v) (ResourceSubscriptionManager :: string manager)
             [Subscribe ''ghost/posts'' 7
                \<lparr>pollingInterval = None, enablePolling = True\<rparr> ''sub_1'',
              Settle 0 (Inr ''[1]'') 1])))
        [CallbackThrows 0 (PlainError ''Error'' ''handler failed'' None) 2])
       = 2"
proof -
  let ?sub = "Subscribe ''ghost/posts'' 7
                \<lparr>pollingInterval = None, enablePolling = True\<rparr> ''sub_1''
              :: string happening"
  let ?before = "[?sub, Settle 0 (Inr ''[1]'') 1, CallbackReturns 0]"
  let ?later = "[Tick 0, Settle 0 (Inr ''[1,2]'') 30001,
                 NotifyVisit ''sub_1'' ''ghost/posts'' ''[3]'' ''update'' 30002]"
  let ?m = "manager_run (\<lambda>v. v) (ResourceSubscriptionManager :: string manager) ?before"
  have m: "?m = \<lparr>heap = [\<lparr>sub_id = ''sub_1'', sub_uri = ''ghost/posts'', callback = 7,
                          lastValue = Some ''[1]'',
                          sub_options = \<lparr>pollingInterval = None, enablePolling = True\<rparr>\<rparr>],
                 subscriptions = [(''sub_1'', 0)], pollingIntervals = [(''sub_1'', 0)],
                 timers = [(0, 0, 30000)], next_timer = 1, inflight = [], trying = [],
                 delivered = [(0, update_event ''ghost/posts'' ''[1]'' 1)]\<rparr>"
    by (simp add: ResourceSubscriptionManager_def subscribe_def startPolling_def pollFunc_def
        Let_def or_default_def manager_run_def fetch_settles_def poll_resumes_def changed_def
        deliver_def callback_returns_def)
  have reg: "map_get (subscriptions ?m) ''sub_1'' = Some 0" unfolding m by simp
  have n1: "invocations_of 0 ?m = 1" unfolding m by (simp add: invocations_of_def)
  have z: "inflight_of 0 ?m = 0 \<and> trying_of 0 ?m = 0"
    unfolding m by (simp add: inflight_of_def trying_of_def)
  note t = unsubscribed_callback_only_from_inflight[OF reg, of ?later, unfolded Let_def]
  have later: "invocations_of 0 (manager_run (\<lambda>v. v) (snd (unsubscribe ''sub_1'' ?m)) ?later)
                 = 1"
    using t[THEN conjunct2, THEN conjunct2, THEN conjunct1] z n1 by simp
  let ?before2 = "[?sub, Settle 0 (Inr ''[1]'') 1]"
  let ?m2 = "manager_run (\<lambda>v. v) (ResourceSubscriptionManager :: string manager) ?before2"
  have m2: "?m2 = \<lparr>heap = [\<lparr>sub_id = ''sub_1'', sub_uri = ''ghost/posts'', callback = 7,
                          lastValue = Some ''[1]'',
                          sub_options = \<lparr>pollingInterval = None, enablePolling = True\<rparr>\<rparr>],
                 subscriptions = [(''sub_1'', 0)], pollingIntervals = [(''sub_1'', 0)],
                 timers = [(0, 0, 30000)], next_timer = 1, inflight = [], trying = [0],
                 delivered = [(0, update_event ''ghost/posts'' ''[1]'' 1)]\<rparr>"
    by (simp add: ResourceSubscriptionManager_def subscribe_def startPolling_def pollFunc_def
        Let_def or_default_def manager_run_def fetch_settles_def poll_resumes_def changed_def
        deliver_def)
  have t2: "trying_of 0 ?m2 = 1" unfolding m2 by (simp add: trying_of_def)
  have thrown: "invocations_of 0 (manager_run (\<lambda>v. v) (snd (unsubscribe ''sub_1'' ?m2))
                   [CallbackThrows 0 (PlainError ''Error'' ''handler failed'' None) 2]) = 2"
    unfolding m2
    by (simp add: unsubscribe_def stopPolling_def Let_def map_delete_def manager_run_def
          callback_throws_def deliver_def invocations_of_def)
  show ?thesis
    by (intro conjI) (fact reg n1 later t2 thrown)+
qed

end
